theory Spec2Isabelle
  imports Main "HOL-Library.Word"
begin

unbundle bit_operations_syntax

section \<open>Bytes, buffers and exceptions\<close>

text \<open>
  A Python \<open>bytes\<close> or \<open>bytearray\<close> value is a list of 8-bit words. The exceptions
  that \<open>manager.py\<close> and the library calls it makes can raise are the values of
  \<open>error\<close>; \<open>Exception msg\<close> is the source's \<open>raise Exception(msg)\<close>, which the
  specification calls an integrity error.
\<close>

type_synonym byte = "8 word"
type_synonym bytes = "byte list"

datatype error =
    Exception string
  | UnknownMaterialError
  | StructError
  | ValueError
  | OverflowError
  | IndexError

definition bindE :: "error + 'a \<Rightarrow> ('a \<Rightarrow> error + 'b) \<Rightarrow> error + 'b" where
  "bindE m f = (case m of Inl e \<Rightarrow> Inl e | Inr x \<Rightarrow> f x)"

text \<open>\<open>b[lo:hi]\<close> for constant bounds \<open>lo \<le> hi\<close>: a copy, clipped to the buffer.\<close>

definition getslice :: "bytes \<Rightarrow> nat \<Rightarrow> nat \<Rightarrow> bytes" where
  "getslice b lo hi = take (hi - lo) (drop lo b)"

text \<open>\<open>b[i]\<close> raises IndexError out of range.\<close>

definition getitem :: "bytes \<Rightarrow> nat \<Rightarrow> error + byte" where
  "getitem b i = (if i < length b then Inr (b ! i) else Inl IndexError)"

text \<open>
  \<open>b[lo:hi] = new\<close> on a bytearray: the slice is replaced by \<open>new\<close>, whatever its
  length, so the buffer is resized when the lengths differ.
\<close>

definition setslice :: "bytes \<Rightarrow> nat \<Rightarrow> nat \<Rightarrow> bytes \<Rightarrow> bytes" where
  "setslice b lo hi new = take lo b @ new @ drop hi b"

subsection \<open>The \<open>struct\<close> formats used by the codec\<close>

fun le_bytes :: "nat \<Rightarrow> 'a::len word \<Rightarrow> bytes" where
  "le_bytes 0 w = []"
| "le_bytes (Suc n) w = ucast w # le_bytes n (drop_bit 8 w)"

fun of_le :: "bytes \<Rightarrow> 'a::len word" where
  "of_le [] = 0"
| "of_le (b # bs) = ucast b OR push_bit 8 (of_le bs)"

text \<open>\<open>"<Ns"\<close>: the argument truncated or NUL-padded to exactly \<open>n\<close> bytes.\<close>

definition fmt_s :: "nat \<Rightarrow> bytes \<Rightarrow> bytes" where
  "fmt_s n bs = take n bs @ replicate (n - length bs) 0"

text \<open>\<open>"<H"\<close> and \<open>"B"\<close>: struct.error when the integer does not fit.\<close>

definition fmt_H :: "int \<Rightarrow> error + bytes" where
  "fmt_H v = (if 0 \<le> v \<and> v \<le> 0xFFFF then Inr (le_bytes 2 (word_of_int v :: 16 word))
              else Inl StructError)"

definition fmt_B :: "int \<Rightarrow> error + bytes" where
  "fmt_B v = (if 0 \<le> v \<and> v \<le> 0xFF then Inr [word_of_int v] else Inl StructError)"

text \<open>
  \<open>"<d"\<close>: a Python float is represented by its IEEE-754 binary64 bit pattern, which
  \<open>struct\<close> writes as eight little-endian bytes and reads back unchanged.
\<close>

definition fmt_d :: "64 word \<Rightarrow> bytes" where
  "fmt_d x = le_bytes 8 x"

text \<open>\<open>"<HBBBBH"\<close>, the eight bytes of a date.\<close>

definition fmt_HBBBBH :: "int \<Rightarrow> int \<Rightarrow> int \<Rightarrow> int \<Rightarrow> int \<Rightarrow> int \<Rightarrow> error + bytes" where
  "fmt_HBBBBH y mo d h mi s =
     bindE (fmt_H y) (\<lambda>b1.
     bindE (fmt_B mo) (\<lambda>b2.
     bindE (fmt_B d) (\<lambda>b3.
     bindE (fmt_B h) (\<lambda>b4.
     bindE (fmt_B mi) (\<lambda>b5.
     bindE (fmt_H s) (\<lambda>b6.
     Inr (b1 @ b2 @ b3 @ b4 @ b5 @ b6)))))))"

text \<open>
  \<open>struct.pack_into(fmt, buf, off, ...)\<close> writes the packed bytes over
  \<open>buf[off : off + size]\<close> and raises struct.error when they do not fit.
\<close>

definition overwrite :: "bytes \<Rightarrow> nat \<Rightarrow> bytes \<Rightarrow> bytes" where
  "overwrite buf off bs = take off buf @ bs @ drop (off + length bs) buf"

definition pack_into :: "bytes \<Rightarrow> nat \<Rightarrow> error + bytes \<Rightarrow> error + bytes" where
  "pack_into buf off packed =
     bindE packed (\<lambda>bs.
     if off + length bs \<le> length buf then Inr (overwrite buf off bs) else Inl StructError)"

section \<open>Objects: the store of bytearrays\<close>

text \<open>
  \<open>encrypt\<close> and \<open>decrypt\<close> bind a second name to the bytearray they are given
  (\<open>cartridge_crypted = cartridge_packed\<close>) and write through one name while reading
  through the other. Bytearrays therefore live in a store, addressed by references; an
  assignment of a name copies the reference, and a slice read copies the bytes.
\<close>

type_synonym addr = nat

record store =
  objs :: "addr \<Rightarrow> bytes"
  lim :: addr

type_synonym 'a prog = "store \<Rightarrow> (error + 'a) \<times> store"

definition bindS :: "'a prog \<Rightarrow> ('a \<Rightarrow> 'b prog) \<Rightarrow> 'b prog" where
  "bindS m f s = (case m s of (Inl e, s') \<Rightarrow> (Inl e, s') | (Inr x, s') \<Rightarrow> f x s')"

definition returnS :: "'a \<Rightarrow> 'a prog" where
  "returnS x s = (Inr x, s)"

definition raiseS :: "error \<Rightarrow> 'a prog" where
  "raiseS e s = (Inl e, s)"

text \<open>An expression that only reads the store (and may raise).\<close>

definition evalS :: "(store \<Rightarrow> error + 'a) \<Rightarrow> 'a prog" where
  "evalS f s = (f s, s)"

text \<open>\<open>bytearray(...)\<close>: a new object.\<close>

definition new_bytearray :: "bytes \<Rightarrow> addr prog" where
  "new_bytearray b s = (Inr (lim s), s\<lparr>objs := (objs s)(lim s := b), lim := Suc (lim s)\<rparr>)"

text \<open>\<open>struct.pack_into(fmt, r, off, ...)\<close> on the object \<open>r\<close>, given the result of packing the arguments.\<close>

definition pack_into_at :: "addr \<Rightarrow> nat \<Rightarrow> error + bytes \<Rightarrow> unit prog" where
  "pack_into_at r off packed s =
     (case pack_into (objs s r) off packed of
        Inl e \<Rightarrow> (Inl e, s)
      | Inr b \<Rightarrow> (Inr (), s\<lparr>objs := (objs s)(r := b)\<rparr>))"

text \<open>\<open>r[lo:hi] = new\<close> on the object \<open>r\<close>.\<close>

definition setslice_at :: "addr \<Rightarrow> nat \<Rightarrow> nat \<Rightarrow> bytes \<Rightarrow> unit prog" where
  "setslice_at r lo hi new s =
     (Inr (), s\<lparr>objs := (objs s)(r := setslice (objs s r) lo hi new)\<rparr>)"

section \<open>The manager and its two ports\<close>

text \<open>
  \<open>Manager(crypto, checksum)\<close>: the cipher and the checksum are collaborators outside
  the repository's core, taken as parameters. The cipher maps a key and a byte string to
  a byte string; the checksum returns an unsigned 16-bit integer.
\<close>

record manager =
  crypto_encrypt :: "bytes \<Rightarrow> bytes \<Rightarrow> bytes"
  crypto_decrypt :: "bytes \<Rightarrow> bytes \<Rightarrow> bytes"
  checksum :: "bytes \<Rightarrow> 16 word"

text \<open>\<open>struct.unpack("<H", b)[0]\<close> wants exactly two bytes.\<close>

definition unpack_H :: "bytes \<Rightarrow> error + int" where
  "unpack_H b = (if length b = 2 then Inr (uint (of_le b :: 16 word)) else Inl StructError)"

text \<open>\<open>struct.unpack_from(fmt, buf, off)\<close> wants the format's size in bytes from \<open>off\<close> on.\<close>

definition unpack_from :: "nat \<Rightarrow> bytes \<Rightarrow> nat \<Rightarrow> error + bytes" where
  "unpack_from n b off =
     (if off + n \<le> length b then Inr (getslice b off (off + n)) else Inl StructError)"

section \<open>Numbers, text and dates\<close>

subsection \<open>Integers and floats\<close>

text \<open>\<open>int.bit_length\<close>.\<close>

fun bit_length :: "nat \<Rightarrow> nat" where
  "bit_length n = (if n = 0 then 0 else Suc (bit_length (n div 2)))"

declare bit_length.simps [simp del]

text \<open>
  The conversion \<open>struct\<close> applies to an integer argument of \<open>"<d"\<close>: the nearest
  binary64 value, ties to even; struct.error when the integer is too large.
\<close>

definition double_of_int :: "int \<Rightarrow> error + 64 word" where
  "double_of_int i =
     (if i = 0 then Inr 0
      else
        let n = nat \<bar>i\<bar>;
            k = bit_length n - 1;
            sign = (if i < 0 then 2 ^ 63 else 0 :: nat)
        in if k \<le> 52
           then Inr (word_of_nat (sign + (k + 1023) * 2 ^ 52 + (n * 2 ^ (52 - k) - 2 ^ 52)))
           else
             let sh = k - 52;
                 q = n div 2 ^ sh;
                 r = n mod 2 ^ sh;
                 half = 2 ^ (sh - 1);
                 q' = (if r > half \<or> (r = half \<and> odd q) then q + 1 else q);
                 ex = (if q' = 2 ^ 53 then k + 1 else k);
                 fr = (if q' = 2 ^ 53 then 0 else q' - 2 ^ 52)
             in if ex > 1023 then Inl StructError
                else Inr (word_of_nat (sign + (ex + 1023) * 2 ^ 52 + fr)))"

text \<open>
  \<open>int(x)\<close> on a float: truncation towards zero; ValueError on a NaN, OverflowError on
  an infinity.
\<close>

definition int_of_double :: "64 word \<Rightarrow> error + int" where
  "int_of_double w =
     (let x = unat w;
          neg = (x div 2 ^ 63 = 1);
          ex = (x div 2 ^ 52) mod 2 ^ 11;
          fr = x mod 2 ^ 52
      in if ex = 2047 then (if fr = 0 then Inl OverflowError else Inl ValueError)
         else if ex = 0 then Inr 0
         else
           let m = 2 ^ 52 + fr;
               a = (if 1075 \<le> ex then m * 2 ^ (ex - 1075) else m div 2 ^ (1075 - ex))
           in Inr (if neg then - int a else int a))"

subsection \<open>Text\<close>

text \<open>
  A Python \<open>str\<close> is represented by the characters of its UTF-8 encoding, one \<open>char\<close>
  per byte, so \<open>encode("utf-8")\<close> and the assignment of UTF-8 bytes to a text field map
  characters to bytes and back. (The check that protobuf makes on such an assignment,
  that the bytes are well-formed UTF-8, is not part of the model.)
\<close>

definition encode_utf8 :: "string \<Rightarrow> bytes" where
  "encode_utf8 str = map (\<lambda>c. word_of_nat (of_char c)) str"

definition decode_utf8 :: "bytes \<Rightarrow> string" where
  "decode_utf8 b = map (\<lambda>x. char_of (unat x)) b"

definition hexdigit :: "nat \<Rightarrow> char" where
  "hexdigit n = ''0123456789abcdef'' ! n"

text \<open>\<open>hex(n)\<close> on a non-negative integer, without the \<open>0x\<close> prefix.\<close>

fun hex_digits :: "nat \<Rightarrow> string" where
  "hex_digits n = (if n < 16 then [hexdigit n] else hex_digits (n div 16) @ [hexdigit (n mod 16)])"

declare hex_digits.simps [simp del]

definition py_hex :: "int \<Rightarrow> string" where
  "py_hex i = (if i < 0 then ''-0x'' @ hex_digits (nat (- i)) else ''0x'' @ hex_digits (nat i))"

text \<open>\<open>bytes.hex()\<close>: two lower-case digits per byte.\<close>

definition bytes_hex :: "bytes \<Rightarrow> string" where
  "bytes_hex b = concat (map (\<lambda>x. [hexdigit (unat x div 16), hexdigit (unat x mod 16)]) b)"

definition hexval :: "char \<Rightarrow> nat option" where
  "hexval c =
     (let n = of_char c :: nat in
      if 48 \<le> n \<and> n \<le> 57 then Some (n - 48)
      else if 97 \<le> n \<and> n \<le> 102 then Some (n - 87)
      else if 65 \<le> n \<and> n \<le> 70 then Some (n - 55)
      else None)"

definition isspace :: "char \<Rightarrow> bool" where
  "isspace c = (of_char c \<in> {32, 9, 10, 11, 12, 13 :: nat})"

text \<open>
  \<open>bytearray.fromhex(str)\<close>: pairs of hexadecimal digits of either case, with ASCII
  whitespace allowed between the pairs; ValueError on anything else.
\<close>

fun fromhex :: "string \<Rightarrow> error + bytes" where
  "fromhex [] = Inr []"
| "fromhex (c # cs) =
     (if isspace c then fromhex cs
      else case hexval c of
        None \<Rightarrow> Inl ValueError
      | Some hi \<Rightarrow>
          (case cs of
             [] \<Rightarrow> Inl ValueError
           | d # ds \<Rightarrow>
               (case hexval d of
                  None \<Rightarrow> Inl ValueError
                | Some lo \<Rightarrow>
                    bindE (fromhex ds) (\<lambda>rest. Inr (word_of_nat (hi * 16 + lo) # rest)))))"

subsection \<open>Dates\<close>

text \<open>
  A date of the record is represented by the calendar fields of the \<open>datetime\<close> that
  \<open>ToDatetime()\<close> yields for it, microseconds included; \<open>FromDatetime\<close> is the way
  back. \<open>datetime.datetime(y, mo, d, h, mi, s)\<close> raises ValueError outside the
  calendar's ranges.
\<close>

record datetime =
  year :: nat
  month :: nat
  day :: nat
  hour :: nat
  minute :: nat
  second :: nat
  microsecond :: nat

definition is_leap :: "int \<Rightarrow> bool" where
  "is_leap y = (y mod 4 = 0 \<and> (y mod 100 \<noteq> 0 \<or> y mod 400 = 0))"

definition days_in_month :: "int \<Rightarrow> int \<Rightarrow> int" where
  "days_in_month y mo =
     (if mo = 2 then (if is_leap y then 29 else 28)
      else if mo = 4 \<or> mo = 6 \<or> mo = 9 \<or> mo = 11 then 30 else 31)"

definition new_datetime :: "int \<Rightarrow> int \<Rightarrow> int \<Rightarrow> int \<Rightarrow> int \<Rightarrow> int \<Rightarrow> error + datetime" where
  "new_datetime y mo d h mi s =
     (if 1 \<le> y \<and> y \<le> 9999 \<and> 1 \<le> mo \<and> mo \<le> 12 \<and> 1 \<le> d \<and> d \<le> days_in_month y mo
         \<and> 0 \<le> h \<and> h \<le> 23 \<and> 0 \<le> mi \<and> mi \<le> 59 \<and> 0 \<le> s \<and> s \<le> 59
      then Inr \<lparr>year = nat y, month = nat mo, day = nat d, hour = nat h, minute = nat mi,
                second = nat s, microsecond = 0\<rparr>
      else Inl ValueError)"

text \<open>The six integers that \<open>"<HBBBBH"\<close> reads from eight bytes.\<close>

definition unpack_HBBBBH :: "bytes \<Rightarrow> int \<times> int \<times> int \<times> int \<times> int \<times> int" where
  "unpack_HBBBBH b =
     (uint (of_le (take 2 b) :: 16 word), uint (b ! 2), uint (b ! 3), uint (b ! 4), uint (b ! 5),
      uint (of_le (drop 6 b) :: 16 word))"

section \<open>The record and the material table\<close>

record cartridge =
  serial_number :: "64 word"
  material_name :: string
  manufacturing_lot :: string
  manufacturing_date :: datetime
  last_use_date :: datetime
  initial_material_quantity :: "64 word"
  current_material_quantity :: "64 word"
  key_fragment :: string
  version :: int
  signature :: string

text \<open>
  Modelled from the spec: the module \<open>material\<close> (\<open>get_id_from_name\<close>,
  \<open>get_name_from_id\<close> and the table they search) is not among the sources. The
  specification describes a bidirectional lookup between names and numeric identifiers
  that fails with \<open>UnknownMaterialError\<close> on an unknown name and on an unknown
  identifier. The table itself is a parameter.
\<close>

type_synonym material_table = "(string \<times> int) list"

definition get_id_from_name :: "material_table \<Rightarrow> string \<Rightarrow> error + int" where
  "get_id_from_name tbl name =
     (case map_of tbl name of None \<Rightarrow> Inl UnknownMaterialError | Some i \<Rightarrow> Inr i)"

definition get_name_from_id :: "material_table \<Rightarrow> int \<Rightarrow> error + string" where
  "get_name_from_id tbl i =
     (case map_of (map (\<lambda>(name, j). (j, name)) tbl) i of
        None \<Rightarrow> Inl UnknownMaterialError
      | Some name \<Rightarrow> Inr name)"

section \<open>The layout codec\<close>

text \<open>
  \<open>Manager.pack\<close>. The bytearray \<open>eeprom\<close> is local until it is returned, so \<open>pack\<close>
  is a function to the contents of the new object.
\<close>

definition pack :: "manager \<Rightarrow> material_table \<Rightarrow> cartridge \<Rightarrow> error + bytes" where
  "pack M tbl cartridge =
     (let eeprom = replicate 0x71 (0 :: byte) in
      bindE (pack_into eeprom 0x0 (Inr (fmt_d (serial_number cartridge)))) (\<lambda>eeprom.
      bindE (get_id_from_name tbl (material_name cartridge)) (\<lambda>material_id.
      bindE (pack_into eeprom 0x08 (bindE (double_of_int material_id) (\<lambda>x. Inr (fmt_d x))))
        (\<lambda>eeprom.
      bindE (pack_into eeprom 0x10 (Inr (fmt_s 20 (encode_utf8 (manufacturing_lot cartridge)))))
        (\<lambda>eeprom.
      bindE (pack_into eeprom 0x24 (fmt_H (version cartridge))) (\<lambda>eeprom.
      let mfg_dt = manufacturing_date cartridge in
      bindE (pack_into eeprom 0x28
               (fmt_HBBBBH (int (year mfg_dt) - 1900) (int (month mfg_dt)) (int (day mfg_dt))
                  (int (hour mfg_dt)) (int (minute mfg_dt)) (int (second mfg_dt)))) (\<lambda>eeprom.
      let lu_dt = last_use_date cartridge in
      bindE (pack_into eeprom 0x30
               (fmt_HBBBBH (int (year lu_dt) - 1900) (int (month lu_dt)) (int (day lu_dt))
                  (int (hour lu_dt)) (int (minute lu_dt)) (int (second lu_dt)))) (\<lambda>eeprom.
      bindE (pack_into eeprom 0x38 (Inr (fmt_d (initial_material_quantity cartridge))))
        (\<lambda>eeprom.
      bindE (pack_into eeprom 0x40 (fmt_H (uint (checksum M (getslice eeprom 0x00 0x40)))))
        (\<lambda>eeprom.
      bindE (fromhex (key_fragment cartridge)) (\<lambda>key.
      bindE (pack_into eeprom 0x48 (Inr (fmt_s 8 key))) (\<lambda>eeprom.
      bindE (pack_into eeprom 0x50 (fmt_H (uint (checksum M (getslice eeprom 0x48 0x50)))))
        (\<lambda>eeprom.
      bindE (pack_into eeprom 0x58 (Inr (fmt_d (current_material_quantity cartridge))))
        (\<lambda>eeprom.
      bindE (pack_into eeprom 0x62 (fmt_H (uint (checksum M (getslice eeprom 0x58 0x60)))))
        (\<lambda>eeprom.
      bindE (pack_into eeprom 0x68 (Inr (fmt_s 9 (encode_utf8 (signature cartridge)))))
        (\<lambda>eeprom.
      Inr eeprom))))))))))))))))"

text \<open>
  \<open>Manager.unpack\<close>. It only reads its argument, so it is a function of the contents
  of the buffer.
\<close>

definition unpack :: "manager \<Rightarrow> material_table \<Rightarrow> bytes \<Rightarrow> error + cartridge" where
  "unpack M tbl cartridge_packed =
     (let computed = uint (checksum M (getslice cartridge_packed 0x00 0x40)) in
      bindE (unpack_H (getslice cartridge_packed 0x40 0x42)) (\<lambda>stored.
      if computed \<noteq> stored
      then Inl (Exception (''invalid content checksum: should have '' @ py_hex stored
                            @ '' but have '' @ py_hex computed))
      else
      let computed = uint (checksum M (getslice cartridge_packed 0x58 0x60)) in
      bindE (unpack_H (getslice cartridge_packed 0x62 0x64)) (\<lambda>stored.
      if computed \<noteq> stored
      then Inl (Exception ''invalid current material quantity checksum'')
      else
      bindE (unpack_from 8 cartridge_packed 0x0) (\<lambda>b.
      let serial_number = (of_le b :: 64 word) in
      bindE (unpack_from 8 cartridge_packed 0x08) (\<lambda>b.
      bindE (int_of_double (of_le b)) (\<lambda>material_id.
      bindE (get_name_from_id tbl material_id) (\<lambda>material_name.
      bindE (unpack_from 20 cartridge_packed 0x10) (\<lambda>b.
      let manufacturing_lot = takeWhile (\<lambda>x. x \<noteq> 0) b in
      bindE (unpack_from 8 cartridge_packed 0x28) (\<lambda>b.
      bindE (case unpack_HBBBBH b of (y, mo, d, h, mi, s) \<Rightarrow>
               new_datetime (y + 1900) mo d h mi s) (\<lambda>mfg_datetime.
      bindE (unpack_from 8 cartridge_packed 0x30) (\<lambda>b.
      bindE (case unpack_HBBBBH b of (y, mo, d, h, mi, s) \<Rightarrow>
               new_datetime (y + 1900) mo d h mi s) (\<lambda>use_datetime.
      bindE (unpack_from 8 cartridge_packed 0x38) (\<lambda>b.
      let initial_material_quantity = (of_le b :: 64 word) in
      bindE (unpack_from 2 cartridge_packed 0x24) (\<lambda>b.
      let version = uint (of_le b :: 16 word) in
      bindE (unpack_from 8 cartridge_packed 0x48) (\<lambda>b.
      let key_fragment = bytes_hex b in
      bindE (unpack_from 8 cartridge_packed 0x58) (\<lambda>b.
      let current_material_quantity = (of_le b :: 64 word) in
      bindE (unpack_from 9 cartridge_packed 0x68) (\<lambda>signature.
      Inr \<lparr>serial_number = serial_number,
           material_name = material_name,
           manufacturing_lot = decode_utf8 manufacturing_lot,
           manufacturing_date = mfg_datetime,
           last_use_date = use_datetime,
           initial_material_quantity = initial_material_quantity,
           current_material_quantity = current_material_quantity,
           key_fragment = key_fragment,
           version = version,
           signature = decode_utf8 signature\<rparr>)))))))))))))))))"

section \<open>Key derivation\<close>

text \<open>
  \<open>Manager.build_key\<close>: \<open>~x & 0xff\<close> on a byte is its complement. The three
  arguments are only read (the two identifiers are copied first), so the function is a
  function of their contents.
\<close>

definition build_key :: "bytes \<Rightarrow> bytes \<Rightarrow> bytes \<Rightarrow> error + bytes" where
  "build_key cartridge_key machine_number eeprom_uid =
     (let key = replicate 16 (0 :: byte) in
      bindE (getitem cartridge_key 0) (\<lambda>b. let key = key[0 := NOT b AND 0xff] in
      bindE (getitem cartridge_key 2) (\<lambda>b. let key = key[1 := NOT b AND 0xff] in
      bindE (getitem eeprom_uid 2) (\<lambda>b. let key = key[2 := NOT b AND 0xff] in
      bindE (getitem cartridge_key 6) (\<lambda>b. let key = key[3 := NOT b AND 0xff] in
      bindE (getitem machine_number 0) (\<lambda>b. let key = key[4 := NOT b AND 0xff] in
      bindE (getitem machine_number 2) (\<lambda>b. let key = key[5 := NOT b AND 0xff] in
      bindE (getitem eeprom_uid 6) (\<lambda>b. let key = key[6 := NOT b AND 0xff] in
      bindE (getitem machine_number 6) (\<lambda>b. let key = key[7 := NOT b AND 0xff] in
      bindE (getitem machine_number 7) (\<lambda>b. let key = key[8 := NOT b AND 0xff] in
      bindE (getitem eeprom_uid 1) (\<lambda>b. let key = key[9 := NOT b AND 0xff] in
      bindE (getitem machine_number 3) (\<lambda>b. let key = key[10 := NOT b AND 0xff] in
      bindE (getitem machine_number 1) (\<lambda>b. let key = key[11 := NOT b AND 0xff] in
      bindE (getitem cartridge_key 7) (\<lambda>b. let key = key[12 := NOT b AND 0xff] in
      bindE (getitem eeprom_uid 5) (\<lambda>b. let key = key[13 := NOT b AND 0xff] in
      bindE (getitem cartridge_key 3) (\<lambda>b. let key = key[14 := NOT b AND 0xff] in
      bindE (getitem cartridge_key 1) (\<lambda>b. let key = key[15 := NOT b AND 0xff] in
      Inr key)))))))))))))))))"

section \<open>Encryption and decryption in place\<close>

text \<open>\<open>Manager.encrypt\<close>.\<close>

definition encrypt :: "manager \<Rightarrow> bytes \<Rightarrow> bytes \<Rightarrow> addr \<Rightarrow> addr prog" where
  "encrypt M machine_number eeprom_uid cartridge_packed =
     (let cartridge_crypted = cartridge_packed in
      bindS (evalS (\<lambda>s. build_key (getslice (objs s cartridge_packed) 0x48 0x50)
                                     machine_number eeprom_uid)) (\<lambda>key.
      bindS (\<lambda>s. pack_into_at cartridge_crypted 0x00
                   (Inr (fmt_s 64
                      (crypto_encrypt M key (getslice (objs s cartridge_packed) 0x00 0x40)))) s)
        (\<lambda>_.
      bindS (\<lambda>s. pack_into_at cartridge_crypted 0x46
                   (fmt_H (uint (checksum M (getslice (objs s cartridge_packed) 0x00 0x40)))) s)
        (\<lambda>_.
      bindS (\<lambda>s. pack_into_at cartridge_crypted 0x58
                   (Inr (fmt_s 8
                      (crypto_encrypt M key (getslice (objs s cartridge_packed) 0x58 0x60)))) s)
        (\<lambda>_.
      bindS (\<lambda>s. pack_into_at cartridge_crypted 0x60
                   (fmt_H (uint (checksum M (getslice (objs s cartridge_packed) 0x58 0x60)))) s)
        (\<lambda>_.
      returnS cartridge_crypted))))))"

text \<open>\<open>Manager.decrypt\<close>.\<close>

definition decrypt :: "manager \<Rightarrow> bytes \<Rightarrow> bytes \<Rightarrow> addr \<Rightarrow> addr prog" where
  "decrypt M machine_number eeprom_uid cartridge_crypted =
     (let cartridge_packed = cartridge_crypted in
      bindS (evalS (\<lambda>s. build_key (getslice (objs s cartridge_crypted) 0x48 0x50)
                                     machine_number eeprom_uid)) (\<lambda>key.
      bindS (evalS (\<lambda>s. Inr (uint (checksum M (getslice (objs s cartridge_crypted) 0x00 0x40)))))
        (\<lambda>computed.
      bindS (evalS (\<lambda>s. unpack_H (getslice (objs s cartridge_crypted) 0x46 0x48))) (\<lambda>stored.
      if computed \<noteq> stored then raiseS (Exception ''invalid crypted content checksum'')
      else
      bindS (\<lambda>s. setslice_at cartridge_packed 0x00 0x40
                   (crypto_decrypt M key (getslice (objs s cartridge_crypted) 0x00 0x40)) s) (\<lambda>_.
      bindS (evalS (\<lambda>s. Inr (uint (checksum M (getslice (objs s cartridge_crypted) 0x58 0x60)))))
        (\<lambda>computed.
      bindS (evalS (\<lambda>s. unpack_H (getslice (objs s cartridge_crypted) 0x60 0x62))) (\<lambda>stored.
      if computed \<noteq> stored
      then raiseS (Exception ''invalid current material quantity checksum'')
      else
      bindS (\<lambda>s. setslice_at cartridge_packed 0x58 0x60
                   (crypto_decrypt M key (getslice (objs s cartridge_crypted) 0x58 0x60)) s) (\<lambda>_.
      returnS cartridge_packed))))))))"

section \<open>The pipeline\<close>

text \<open>\<open>Manager.encode\<close>: the bytearray that \<open>pack\<close> returns is a new object.\<close>

definition encode :: "manager \<Rightarrow> material_table \<Rightarrow> bytes \<Rightarrow> bytes \<Rightarrow> cartridge \<Rightarrow> addr prog" where
  "encode M tbl machine_number eeprom_uid cartridge =
     bindS (bindS (evalS (\<lambda>s. pack M tbl cartridge)) new_bytearray) (\<lambda>cartridge_packed.
     bindS (encrypt M machine_number eeprom_uid cartridge_packed) (\<lambda>cartridge_crypted.
     returnS cartridge_crypted))"

text \<open>\<open>Manager.decode\<close>.\<close>

definition decode :: "manager \<Rightarrow> material_table \<Rightarrow> bytes \<Rightarrow> bytes \<Rightarrow> addr \<Rightarrow> cartridge prog" where
  "decode M tbl machine_number eeprom_uid cartridge_crypted =
     bindS (decrypt M machine_number eeprom_uid cartridge_crypted) (\<lambda>cartridge_packed.
     bindS (evalS (\<lambda>s. unpack M tbl (objs s cartridge_packed))) (\<lambda>cartridge.
     returnS cartridge))"

section \<open>Descriptions used in the statements\<close>

text \<open>
  The contents of a buffer of at least \<open>0x62\<close> bytes after \<open>encrypt\<close> has run on it
  with the derived key \<open>key\<close>: the four writes of \<open>encrypt\<close>, each reading the buffer as
  the writes before it left it.
\<close>

definition encrypted :: "manager \<Rightarrow> bytes \<Rightarrow> bytes \<Rightarrow> bytes" where
  "encrypted M key b =
     (let b1 = overwrite b 0x00 (fmt_s 64 (crypto_encrypt M key (getslice b 0x00 0x40)));
          b2 = overwrite b1 0x46 (le_bytes 2 (checksum M (getslice b1 0x00 0x40)));
          b3 = overwrite b2 0x58 (fmt_s 8 (crypto_encrypt M key (getslice b2 0x58 0x60)));
          b4 = overwrite b3 0x60 (le_bytes 2 (checksum M (getslice b3 0x58 0x60)))
      in b4)"

text \<open>The contents after the first and after both slice assignments of \<open>decrypt\<close>.\<close>

definition header_decrypted :: "manager \<Rightarrow> bytes \<Rightarrow> bytes \<Rightarrow> bytes" where
  "header_decrypted M key b = setslice b 0x00 0x40 (crypto_decrypt M key (getslice b 0x00 0x40))"

definition decrypted :: "manager \<Rightarrow> bytes \<Rightarrow> bytes \<Rightarrow> bytes" where
  "decrypted M key b =
     (let b1 = header_decrypted M key b
      in setslice b1 0x58 0x60 (crypto_decrypt M key (getslice b1 0x58 0x60)))"

text \<open>One bit of one byte of a buffer flipped.\<close>

definition flip_bit_at :: "bytes \<Rightarrow> nat \<Rightarrow> nat \<Rightarrow> bytes" where
  "flip_bit_at b i k = b[i := flip_bit k (b ! i)]"

text \<open>\<open>store_at s r b\<close>: the store \<open>s\<close> with the contents of object \<open>r\<close> replaced.\<close>

definition store_at :: "store \<Rightarrow> addr \<Rightarrow> bytes \<Rightarrow> store" where
  "store_at s r b = s\<lparr>objs := (objs s)(r := b)\<rparr>"

section \<open>Example collaborators and inputs\<close>

text \<open>
  A checksum (the sum of the bytes modulo \<open>2^16\<close>) and a cipher (every byte shifted by
  the sum of the key bytes) that satisfy the contracts of the two ports, a material
  table, a record, a pair of identifiers and an empty store.
\<close>

definition sum16 :: "bytes \<Rightarrow> 16 word" where
  "sum16 bs = sum_list (map ucast bs)"

definition shift_encrypt :: "bytes \<Rightarrow> bytes \<Rightarrow> bytes" where
  "shift_encrypt key bs = map (\<lambda>b. b + sum_list key) bs"

definition shift_decrypt :: "bytes \<Rightarrow> bytes \<Rightarrow> bytes" where
  "shift_decrypt key bs = map (\<lambda>b. b - sum_list key) bs"

definition M_ex :: manager where
  "M_ex = \<lparr>crypto_encrypt = shift_encrypt, crypto_decrypt = shift_decrypt, checksum = sum16\<rparr>"

definition tbl_ex :: material_table where
  "tbl_ex = [(''ABS'', 0), (''PC'', 19)]"

definition dt_ex :: datetime where
  "dt_ex = \<lparr>year = 2015, month = 6, day = 30, hour = 12, minute = 34, second = 56,
            microsecond = 0\<rparr>"

definition c_ex :: cartridge where
  "c_ex = \<lparr>serial_number = 0x40C3880000000000, material_name = ''PC'',
           manufacturing_lot = ''1234'', manufacturing_date = dt_ex, last_use_date = dt_ex,
           initial_material_quantity = 0x4056800000000000,
           current_material_quantity = 0x4056800000000000,
           key_fragment = ''4141414141414141'', version = 1, signature = ''STRATASYS''\<rparr>"

definition id_ex :: bytes where
  "id_ex = [1, 2, 3, 4, 5, 6, 7, 8]"

definition s_ex :: store where
  "s_ex = \<lparr>objs = (\<lambda>_. []), lim = 0\<rparr>"

text \<open>The bytes of the example record as \<open>pack\<close> lays them out.\<close>

definition packed_ex :: bytes where
  "packed_ex =
     [0, 0, 0, 0, 0, 136, 195, 64, 0, 0, 0, 0, 0, 0, 51, 64,
      49, 50, 51, 52, 0, 0, 0, 0, 0, 0, 0, 0, 0, 0, 0, 0,
      0, 0, 0, 0, 1, 0, 0, 0, 115, 0, 6, 30, 12, 34, 56, 0,
      115, 0, 6, 30, 12, 34, 56, 0, 0, 0, 0, 0, 0, 128, 86, 64,
      217, 5, 0, 0, 0, 0, 0, 0, 65, 65, 65, 65, 65, 65, 65, 65,
      8, 2, 0, 0, 0, 0, 0, 0, 0, 0, 0, 0, 0, 128, 86, 64,
      0, 0, 22, 1, 0, 0, 0, 0, 83, 84, 82, 65, 84, 65, 83, 89, 83]"

text \<open>
  The key derived from the example's key fragment and identifiers, and the image that
  \<open>encode\<close> produces for the example record.
\<close>

definition key_ex :: bytes where
  "key_ex = [190, 190, 252, 190, 254, 252, 248, 248, 247, 253, 251, 253, 190, 249, 190, 190]"

definition image_ex :: bytes where
  "image_ex =
     [63, 63, 63, 63, 63, 199, 2, 127, 63, 63, 63, 63, 63, 63, 114, 127,
      112, 113, 114, 115, 63, 63, 63, 63, 63, 63, 63, 63, 63, 63, 63, 63,
      63, 63, 63, 63, 64, 63, 63, 63, 178, 63, 69, 93, 75, 97, 119, 63,
      178, 63, 69, 93, 75, 97, 119, 63, 63, 63, 63, 63, 63, 191, 149, 127,
      217, 5, 0, 0, 0, 0, 153, 20, 65, 65, 65, 65, 65, 65, 65, 65,
      8, 2, 0, 0, 0, 0, 0, 0, 63, 63, 63, 63, 63, 191, 149, 127,
      14, 3, 22, 1, 0, 0, 0, 0, 83, 84, 82, 65, 84, 65, 83, 89, 83]"

text \<open>The example image after \<open>decrypt\<close>: the packed bytes, with the two tokens left in place.\<close>

definition plain_ex :: bytes where
  "plain_ex =
     [0, 0, 0, 0, 0, 136, 195, 64, 0, 0, 0, 0, 0, 0, 51, 64,
      49, 50, 51, 52, 0, 0, 0, 0, 0, 0, 0, 0, 0, 0, 0, 0,
      0, 0, 0, 0, 1, 0, 0, 0, 115, 0, 6, 30, 12, 34, 56, 0,
      115, 0, 6, 30, 12, 34, 56, 0, 0, 0, 0, 0, 0, 128, 86, 64,
      217, 5, 0, 0, 0, 0, 153, 20, 65, 65, 65, 65, 65, 65, 65, 65,
      8, 2, 0, 0, 0, 0, 0, 0, 0, 0, 0, 0, 0, 128, 86, 64,
      14, 3, 22, 1, 0, 0, 0, 0, 83, 84, 82, 65, 84, 65, 83, 89,
      83]"

text \<open>
  The example record with a manufacturing lot of 26 bytes, and the bytes that \<open>pack\<close>
  lays out for it.
\<close>

definition c_long :: cartridge where
  "c_long = c_ex\<lparr>manufacturing_lot := ''ABCDEFGHIJKLMNOPQRSTUVWXYZ''\<rparr>"

definition packed_long :: bytes where
  "packed_long =
     [0, 0, 0, 0, 0, 136, 195, 64, 0, 0, 0, 0, 0, 0, 51, 64,
      65, 66, 67, 68, 69, 70, 71, 72, 73, 74, 75, 76, 77, 78, 79, 80,
      81, 82, 83, 84, 1, 0, 0, 0, 115, 0, 6, 30, 12, 34, 56, 0,
      115, 0, 6, 30, 12, 34, 56, 0, 0, 0, 0, 0, 0, 128, 86, 64,
      225, 10, 0, 0, 0, 0, 0, 0, 65, 65, 65, 65, 65, 65, 65, 65,
      8, 2, 0, 0, 0, 0, 0, 0, 0, 0, 0, 0, 0, 128, 86, 64,
      0, 0, 22, 1, 0, 0, 0, 0, 83, 84, 82, 65, 84, 65, 83, 89,
      83]"

section \<open>Records that survive the round trip\<close>

text \<open>
  What \<open>unpack\<close> rebuilds from the six integers of a date: the calendar fields, with
  no microseconds.
\<close>

definition truncate_seconds :: "datetime \<Rightarrow> datetime" where
  "truncate_seconds d = d\<lparr>microsecond := 0\<rparr>"

text \<open>
  A date that \<open>"<HBBBBH"\<close> can hold as an offset from 1900 and that
  \<open>datetime.datetime\<close> accepts.
\<close>

definition valid_datetime :: "datetime \<Rightarrow> bool" where
  "valid_datetime d \<longleftrightarrow>
     1900 \<le> year d \<and> year d \<le> 9999 \<and> 1 \<le> month d \<and> month d \<le> 12
   \<and> 1 \<le> day d \<and> int (day d) \<le> days_in_month (int (year d)) (int (month d))
   \<and> hour d \<le> 23 \<and> minute d \<le> 59 \<and> second d \<le> 59"

text \<open>
  A record whose every field fits its slot: the material is in the table, with an
  identifier that a binary64 float holds exactly and that the table maps back to the same
  name; the lot is at most 20 bytes long and has no NUL; the version is an unsigned 16-bit
  integer; both dates are valid; the key fragment is the lower-case hexadecimal text of
  exactly eight bytes; the signature is at most nine bytes long and has no NUL.
\<close>

definition valid_record :: "material_table \<Rightarrow> cartridge \<Rightarrow> bool" where
  "valid_record tbl c \<longleftrightarrow>
     (case get_id_from_name tbl (material_name c) of
        Inl e \<Rightarrow> False
      | Inr i \<Rightarrow> \<bar>i\<bar> < 2 ^ 53 \<and> get_name_from_id tbl i = Inr (material_name c))
   \<and> length (manufacturing_lot c) \<le> 20 \<and> CHR 0x00 \<notin> set (manufacturing_lot c)
   \<and> 0 \<le> version c \<and> version c \<le> 0xFFFF
   \<and> valid_datetime (manufacturing_date c) \<and> valid_datetime (last_use_date c)
   \<and> (case fromhex (key_fragment c) of
        Inl e \<Rightarrow> False
      | Inr k \<Rightarrow> length k = 8 \<and> bytes_hex k = key_fragment c)
   \<and> length (signature c) \<le> 9 \<and> CHR 0x00 \<notin> set (signature c)"

text \<open>The cipher port's contract: no padding, and \<open>decrypt\<close> inverts \<open>encrypt\<close>.\<close>

definition cipher_contract :: "manager \<Rightarrow> bool" where
  "cipher_contract M \<longleftrightarrow>
     (\<forall>k x. length (crypto_encrypt M k x) = length x)
   \<and> (\<forall>k x. length (crypto_decrypt M k x) = length x)
   \<and> (\<forall>k x. crypto_decrypt M k (crypto_encrypt M k x) = x)"

text \<open>The example record with a signature of six characters.\<close>

definition c_short :: cartridge where
  "c_short = c_ex\<lparr>signature := ''STRATA''\<rparr>"

section \<open>Basic facts\<close>

lemma bindE_Inl [simp]: "bindE (Inl e) f = Inl e"
  by (simp add: bindE_def)

lemma bindE_Inr [simp]: "bindE (Inr x) f = f x"
  by (simp add: bindE_def)

lemma bindE_eq_Inr: "bindE m f = Inr y \<longleftrightarrow> (\<exists>x. m = Inr x \<and> f x = Inr y)"
  by (cases m) simp_all

lemma byte_ff: "(0xff :: byte) = - 1"
  by simp

lemma complement_byte: "NOT (x :: byte) AND 0xff = 0xff - x"
  unfolding byte_ff by (simp add: not_eq_complement)

lemma complement_byte_NOT: "NOT (x :: byte) AND 0xff = NOT x"
  unfolding byte_ff by simp

lemma length_le_bytes [simp]: "length (le_bytes n w) = n"
  by (induction n arbitrary: w) auto

lemma of_le_le_bytes: "of_le (le_bytes n w) = take_bit (8 * n) w"
proof (induction n arbitrary: w)
  case 0
  show ?case by simp
next
  case (Suc n)
  show ?case
    apply (simp add: Suc)
    apply (rule bit_word_eqI)
    apply (auto simp: bit_simps)
    done
qed

lemma of_le_le_bytes_16 [simp]: "of_le (le_bytes 2 w) = (w :: 16 word)"
  by (simp add: of_le_le_bytes take_bit_word_eq_self)

lemma of_le_le_bytes_64 [simp]: "of_le (le_bytes 8 w) = (w :: 64 word)"
  by (simp add: of_le_le_bytes take_bit_word_eq_self)

lemma build_key_list:
  "build_key [k0, k1, k2, k3, k4, k5, k6, k7] [m0, m1, m2, m3, m4, m5, m6, m7]
             [d0, d1, d2, d3, d4, d5, d6, d7]
     = Inr [0xff - k0, 0xff - k2, 0xff - d2, 0xff - k6, 0xff - m0, 0xff - m2, 0xff - d6,
            0xff - m6, 0xff - m7, 0xff - d1, 0xff - m3, 0xff - m1, 0xff - k7, 0xff - d5,
            0xff - k3, 0xff - k1]"
  apply (simp add: build_key_def getitem_def complement_byte Let_def)
  apply (simp add: eval_nat_numeral)
  done

lemma length_slice [simp]: "length (getslice b lo hi) = min (hi - lo) (length b - lo)"
  by (simp add: getslice_def)

lemma length_overwrite [simp]:
  "off + length bs \<le> length b \<Longrightarrow> length (overwrite b off bs) = length b"
  by (simp add: overwrite_def)

lemma nth_overwrite:
  "off + length bs \<le> length b \<Longrightarrow> i < length b \<Longrightarrow>
   overwrite b off bs ! i = (if off \<le> i \<and> i < off + length bs then bs ! (i - off) else b ! i)"
  by (auto simp: overwrite_def nth_append min_def)

lemma slice_overwrite_same:
  "off + length bs \<le> length b \<Longrightarrow> hi = off + length bs \<Longrightarrow>
   getslice (overwrite b off bs) off hi = bs"
  by (simp add: getslice_def overwrite_def)

lemma slice_overwrite_other:
  assumes "off + length bs \<le> length b" and "hi \<le> off \<or> off + length bs \<le> lo"
  shows "getslice (overwrite b off bs) lo hi = getslice b lo hi"
proof (rule nth_equalityI)
  show "length (getslice (overwrite b off bs) lo hi) = length (getslice b lo hi)"
    using assms by simp
next
  fix i assume "i < length (getslice (overwrite b off bs) lo hi)"
  then have i: "i < hi - lo" "lo + i < length b"
    using assms by auto
  then show "getslice (overwrite b off bs) lo hi ! i = getslice b lo hi ! i"
    using assms by (auto simp: getslice_def nth_overwrite)
qed

lemma setslice_eq_overwrite:
  "length new = hi - lo \<Longrightarrow> lo \<le> hi \<Longrightarrow> hi \<le> length b \<Longrightarrow>
   setslice b lo hi new = overwrite b lo new"
  by (simp add: setslice_def overwrite_def)

lemma length_fmt_s [simp]: "length (fmt_s n bs) = n"
  by (simp add: fmt_s_def)

lemma fmt_s_exact: "length bs = n \<Longrightarrow> fmt_s n bs = bs"
  by (simp add: fmt_s_def)

lemma fmt_H_uint [simp]: "fmt_H (uint (w :: 16 word)) = Inr (le_bytes 2 w)"
proof -
  have "uint w \<le> 0xFFFF"
    using uint_lt2p [of w] by simp
  then show ?thesis by (simp add: fmt_H_def)
qed

lemma unpack_H_le_bytes [simp]: "unpack_H (le_bytes 2 (w :: 16 word)) = Inr (uint w)"
  by (simp add: unpack_H_def)

lemmas prog_defs = bindS_def returnS_def raiseS_def evalS_def pack_into_at_def setslice_at_def
  new_bytearray_def pack_into_def

lemma encrypt_ok:
  assumes "build_key (getslice (objs s r) 0x48 0x50) mn eu = Inr key"
    and "0x62 \<le> length (objs s r)"
  shows "encrypt M mn eu r s = (Inr r, store_at s r (encrypted M key (objs s r)))"
  using assms by (simp add: encrypt_def encrypted_def store_at_def prog_defs Let_def)

lemma encrypt_key_error:
  assumes "build_key (getslice (objs s r) 0x48 0x50) mn eu = Inl e"
  shows "encrypt M mn eu r s = (Inl e, s)"
  using assms by (simp add: encrypt_def prog_defs Let_def)

lemma encrypt_Inr_iff:
  "encrypt M mn eu r s = (Inr r', s') \<longleftrightarrow>
     (\<exists>key. build_key (getslice (objs s r) 0x48 0x50) mn eu = Inr key
        \<and> 0x62 \<le> length (objs s r) \<and> r' = r
        \<and> s' = store_at s r (encrypted M key (objs s r)))"
proof (cases "build_key (getslice (objs s r) 0x48 0x50) mn eu")
  case (Inl e)
  then show ?thesis by (simp add: encrypt_key_error)
next
  case (Inr key)
  show ?thesis
  proof (cases "0x62 \<le> length (objs s r)")
    case True
    with Inr show ?thesis by (auto simp: encrypt_ok)
  next
    case False
    with Inr show ?thesis
      by (auto simp: encrypt_def prog_defs Let_def split: if_splits)
  qed
qed

lemma uint_eq_iff [simp]: "uint (a :: 'a::len word) = uint b \<longleftrightarrow> a = b"
  by (simp add: word_uint_eq_iff)

lemma decrypt_key_error:
  assumes "build_key (getslice (objs s r) 0x48 0x50) mn eu = Inl e"
  shows "decrypt M mn eu r s = (Inl e, s)"
  using assms by (simp add: decrypt_def prog_defs Let_def)

lemma decrypt_gate1_fail:
  assumes "build_key (getslice (objs s r) 0x48 0x50) mn eu = Inr key"
    and "0x48 \<le> length (objs s r)"
    and "checksum M (getslice (objs s r) 0x00 0x40) \<noteq> of_le (getslice (objs s r) 0x46 0x48)"
  shows "decrypt M mn eu r s = (Inl (Exception ''invalid crypted content checksum''), s)"
  using assms by (simp add: decrypt_def prog_defs Let_def unpack_H_def)

lemma decrypt_gate2_fail:
  assumes "build_key (getslice (objs s r) 0x48 0x50) mn eu = Inr key"
    and "0x48 \<le> length (objs s r)"
    and "checksum M (getslice (objs s r) 0x00 0x40) = of_le (getslice (objs s r) 0x46 0x48)"
    and "0x62 \<le> length (header_decrypted M key (objs s r))"
    and "checksum M (getslice (header_decrypted M key (objs s r)) 0x58 0x60)
           \<noteq> of_le (getslice (header_decrypted M key (objs s r)) 0x60 0x62)"
  shows "decrypt M mn eu r s
           = (Inl (Exception ''invalid current material quantity checksum''),
              store_at s r (header_decrypted M key (objs s r)))"
  using assms
  by (simp add: decrypt_def prog_defs Let_def unpack_H_def store_at_def header_decrypted_def)

lemma decrypt_ok:
  assumes "build_key (getslice (objs s r) 0x48 0x50) mn eu = Inr key"
    and "0x48 \<le> length (objs s r)"
    and "checksum M (getslice (objs s r) 0x00 0x40) = of_le (getslice (objs s r) 0x46 0x48)"
    and "0x62 \<le> length (header_decrypted M key (objs s r))"
    and "checksum M (getslice (header_decrypted M key (objs s r)) 0x58 0x60)
           = of_le (getslice (header_decrypted M key (objs s r)) 0x60 0x62)"
  shows "decrypt M mn eu r s = (Inr r, store_at s r (decrypted M key (objs s r)))"
  using assms
  by (simp add: decrypt_def prog_defs Let_def unpack_H_def store_at_def header_decrypted_def
      decrypted_def)

lemma header_decrypted_eq:
  assumes "length (crypto_decrypt M key (getslice b 0x00 0x40)) = length (getslice b 0x00 0x40)"
    and "0x40 \<le> length b"
  shows "header_decrypted M key b = overwrite b 0x00 (crypto_decrypt M key (getslice b 0x00 0x40))"
  using assms by (simp add: header_decrypted_def setslice_eq_overwrite)

lemma encrypt_others:
  "encrypt M mn eu r s = (res, s') \<Longrightarrow>
     lim s' = lim s \<and> (\<forall>r'. r' \<noteq> r \<longrightarrow> objs s' r' = objs s r') \<and> (\<forall>r'. res = Inr r' \<longrightarrow> r' = r)"
  by (auto simp: encrypt_def prog_defs Let_def split: sum.splits if_splits prod.splits)

lemma decrypt_others:
  "decrypt M mn eu r s = (res, s') \<Longrightarrow>
     lim s' = lim s \<and> (\<forall>r'. r' \<noteq> r \<longrightarrow> objs s' r' = objs s r') \<and> (\<forall>r'. res = Inr r' \<longrightarrow> r' = r)"
  by (auto simp: decrypt_def prog_defs Let_def split: sum.splits if_splits prod.splits)

lemma encrypt_frame:
  "encrypt M mn eu r s = (res, s') \<Longrightarrow>
     length (objs s' r) = length (objs s r) \<and>
     (\<forall>i < length (objs s r). 0x40 \<le> i \<and> i \<noteq> 0x46 \<and> i \<noteq> 0x47 \<and> (i < 0x58 \<or> 0x62 \<le> i)
        \<longrightarrow> objs s' r ! i = objs s r ! i)"
  by (auto simp: encrypt_def prog_defs Let_def nth_overwrite split: sum.splits if_splits prod.splits)

lemma setslice_frame:
  assumes "length new = length (getslice b lo hi)" and "lo \<le> hi"
  shows "length (setslice b lo hi new) = length b"
    and "i < length b \<Longrightarrow> \<not> (lo \<le> i \<and> i < hi) \<Longrightarrow> setslice b lo hi new ! i = b ! i"
  using assms by (auto simp: setslice_def nth_append min_def)

lemma decrypt_frame:
  assumes "\<And>k x. length (crypto_decrypt M k x) = length x"
    and "decrypt M mn eu r s = (res, s')"
  shows "length (objs s' r) = length (objs s r) \<and>
     (\<forall>i < length (objs s r). 0x40 \<le> i \<and> (i < 0x58 \<or> 0x60 \<le> i)
        \<longrightarrow> objs s' r ! i = objs s r ! i)"
  using assms(2)
  by (auto simp: decrypt_def prog_defs Let_def setslice_frame assms(1)
       split: sum.splits if_splits prod.splits)

lemma replicate_numeral: "replicate (numeral k) x = x # replicate (pred_numeral k) x"
  by (simp add: numeral_eq_Suc)

lemma le_bytes_numeral:
  "le_bytes (numeral k) w = ucast w # le_bytes (pred_numeral k) (drop_bit 8 w)"
  by (simp add: numeral_eq_Suc)

lemma double_of_int_19: "double_of_int 19 = Inr 0x4033000000000000"
  by (simp add: double_of_int_def bit_length.simps Let_def)

lemma fromhex_ex: "fromhex ''4141414141414141'' = Inr [65, 65, 65, 65, 65, 65, 65, 65]"
  by (simp add: hexval_def isspace_def)

lemma zeros_113: "replicate 0x71 (0::byte) = [0, 0, 0, 0, 0, 0, 0, 0, 0, 0, 0, 0, 0, 0, 0, 0, 0, 0, 0, 0, 0, 0, 0, 0, 0, 0, 0, 0, 0, 0, 0, 0, 0, 0, 0, 0, 0, 0, 0, 0, 0, 0, 0, 0, 0, 0, 0, 0, 0, 0, 0, 0, 0, 0, 0, 0, 0, 0, 0, 0, 0, 0, 0, 0, 0, 0, 0, 0, 0, 0, 0, 0, 0, 0, 0, 0, 0, 0, 0, 0, 0, 0, 0, 0, 0, 0, 0, 0, 0, 0, 0, 0, 0, 0, 0, 0, 0, 0, 0, 0, 0, 0, 0, 0, 0, 0, 0, 0, 0, 0, 0, 0, 0]"
  by (simp add: replicate_numeral)

lemma pack_ex: "pack M_ex tbl_ex c_ex = Inr packed_ex"
  unfolding pack_def zeros_113 Let_def
  by (simp add: M_ex_def tbl_ex_def c_ex_def dt_ex_def double_of_int_19 fromhex_ex
      get_id_from_name_def pack_into_def overwrite_def fmt_d_def fmt_s_def fmt_H_def fmt_B_def
      fmt_HBBBBH_def encode_utf8_def getslice_def sum16_def packed_ex_def
      replicate_numeral le_bytes_numeral hexval_def isspace_def)

lemma objs_store_at [simp]: "objs (store_at s r b) r' = (if r' = r then b else objs s r')"
  by (simp add: store_at_def)

lemma lim_store_at [simp]: "lim (store_at s r b) = lim s"
  by (simp add: store_at_def)

lemma store_at_store_at [simp]: "store_at (store_at s r b) r b' = store_at s r b'"
  by (simp add: store_at_def)

lemma build_key_ex: "build_key (getslice packed_ex 0x48 0x50) id_ex id_ex = Inr key_ex"
  by (simp add: packed_ex_def id_ex_def key_ex_def getslice_def build_key_list)

lemma length_packed_ex: "length packed_ex = 0x71"
  by (simp add: packed_ex_def)

lemma length_image_ex: "length image_ex = 0x71"
  by (simp add: image_ex_def)

lemma encrypted_ex: "encrypted M_ex key_ex packed_ex = image_ex"
  by (simp add: encrypted_def M_ex_def key_ex_def packed_ex_def image_ex_def Let_def
      getslice_def overwrite_def fmt_s_def shift_encrypt_def sum16_def le_bytes_numeral)

lemma encrypt_ex:
  "encrypt M_ex id_ex id_ex 0 (store_at s_ex 0 packed_ex) = (Inr 0, store_at s_ex 0 image_ex)"
  using encrypt_ok [of "store_at s_ex 0 packed_ex" 0 id_ex id_ex key_ex M_ex]
  by (simp add: build_key_ex length_packed_ex encrypted_ex)

lemma new_bytearray_s_ex: "new_bytearray b s_ex = (Inr 0, (store_at s_ex 0 b)\<lparr>lim := 1\<rparr>)"
  by (simp add: new_bytearray_def s_ex_def store_at_def)

lemma build_key_cong:
  assumes "\<forall>i\<in>{0, 1, 2, 3, 6, 7}. getitem ck i = getitem ck' i"
    and "\<forall>i\<in>{0, 1, 2, 3, 6, 7}. getitem mn i = getitem mn' i"
    and "\<forall>i\<in>{1, 2, 5, 6}. getitem eu i = getitem eu' i"
  shows "build_key ck mn eu = build_key ck' mn' eu'"
  using assms by (simp add: build_key_def)

lemma build_key_ok:
  assumes "8 \<le> length ck" and "8 \<le> length mn" and "7 \<le> length eu"
  shows "\<exists>key. build_key ck mn eu = Inr key \<and> length key = 16"
  using assms by (auto simp: build_key_def getitem_def Let_def)

lemma getslice_cong:
  assumes "length b' = length b"
    and "\<forall>i<length b. lo \<le> i \<and> i < hi \<longrightarrow> b' ! i = b ! i"
  shows "getslice b' lo hi = getslice b lo hi"
proof (rule nth_equalityI)
  show "length (getslice b' lo hi) = length (getslice b lo hi)"
    using assms(1) by simp
next
  fix i assume "i < length (getslice b' lo hi)"
  then have "i < hi - lo" "lo + i < length b"
    using assms(1) by auto
  then show "getslice b' lo hi ! i = getslice b lo hi ! i"
    using assms by (simp add: getslice_def)
qed

lemma decode_key_only:
  assumes "\<And>ck. build_key ck mn eu = build_key ck mn' eu'"
  shows "decode M tbl mn eu r s = decode M tbl mn' eu' r s"
  by (simp add: decode_def decrypt_def assms)

lemma bindS_returnS [simp]: "bindS m returnS = m"
  by (rule ext) (simp add: bindS_def returnS_def split: prod.splits sum.splits)

lemma encode_eq:
  "encode M tbl mn eu c s =
     (case pack M tbl c of
        Inl e \<Rightarrow> (Inl e, s)
      | Inr b \<Rightarrow> encrypt M mn eu (lim s) ((store_at s (lim s) b)\<lparr>lim := Suc (lim s)\<rparr>))"
  unfolding encode_def bindS_returnS
  by (simp add: bindS_def evalS_def new_bytearray_def store_at_def split: sum.splits)

lemma decode_eq:
  "decode M tbl mn eu r s =
     (case decrypt M mn eu r s of
        (Inl e, s') \<Rightarrow> (Inl e, s')
      | (Inr p, s') \<Rightarrow> (unpack M tbl (objs s' p), s'))"
  unfolding decode_def bindS_returnS
  by (simp add: bindS_def evalS_def split: sum.splits prod.splits)

lemma encrypted_slices:
  assumes "0x62 \<le> length b"
  shows "length (encrypted M key b) = length b"
    and "getslice (encrypted M key b) 0x00 0x40
           = fmt_s 64 (crypto_encrypt M key (getslice b 0x00 0x40))"
    and "getslice (encrypted M key b) 0x58 0x60
           = fmt_s 8 (crypto_encrypt M key (getslice b 0x58 0x60))"
    and "getslice (encrypted M key b) 0x46 0x48
           = le_bytes 2 (checksum M (getslice (encrypted M key b) 0x00 0x40))"
    and "getslice (encrypted M key b) 0x60 0x62
           = le_bytes 2 (checksum M (getslice (encrypted M key b) 0x58 0x60))"
    and "getslice (encrypted M key b) 0x48 0x50 = getslice b 0x48 0x50"
  using assms
  by (simp_all add: encrypted_def Let_def slice_overwrite_same slice_overwrite_other)

lemma encode_ex:
  "encode M_ex tbl_ex id_ex id_ex c_ex s_ex = (Inr 0, (store_at s_ex 0 image_ex)\<lparr>lim := 1\<rparr>)"
proof -
  have "encrypt M_ex id_ex id_ex 0 ((store_at s_ex 0 packed_ex)\<lparr>lim := 1\<rparr>)
          = (Inr 0, store_at ((store_at s_ex 0 packed_ex)\<lparr>lim := 1\<rparr>) 0 image_ex)"
    using encrypt_ok [of "(store_at s_ex 0 packed_ex)\<lparr>lim := 1\<rparr>" 0 id_ex id_ex key_ex M_ex]
    by (simp add: build_key_ex length_packed_ex encrypted_ex store_at_def)
  then show ?thesis
    by (simp add: encode_eq pack_ex s_ex_def store_at_def)
qed

lemma decrypted_ex: "decrypted M_ex key_ex image_ex = plain_ex"
  by (simp add: decrypted_def header_decrypted_def M_ex_def key_ex_def plain_ex_def image_ex_def
      Let_def getslice_def setslice_def shift_decrypt_def)

lemma build_key_image_ex: "build_key (getslice image_ex 0x48 0x50) id_ex id_ex = Inr key_ex"
  by (simp add: image_ex_def id_ex_def key_ex_def getslice_def build_key_list)

lemma gate1_ex: "checksum M_ex (getslice image_ex 0x00 0x40) = of_le (getslice image_ex 0x46 0x48)"
  by (simp add: M_ex_def sum16_def image_ex_def getslice_def)

lemma header_decrypted_ex_slices:
  "length (header_decrypted M_ex key_ex image_ex) = 0x71"
  "getslice (header_decrypted M_ex key_ex image_ex) 0x58 0x60 = getslice image_ex 0x58 0x60"
  "getslice (header_decrypted M_ex key_ex image_ex) 0x60 0x62 = getslice image_ex 0x60 0x62"
  by (simp_all add: header_decrypted_eq M_ex_def shift_decrypt_def length_image_ex
      slice_overwrite_other)

lemma gate2_ex: "checksum M_ex (getslice image_ex 0x58 0x60) = of_le (getslice image_ex 0x60 0x62)"
  by (simp add: M_ex_def sum16_def image_ex_def getslice_def)

lemma decrypt_ex:
  "decrypt M_ex id_ex id_ex 0 (store_at s_ex 0 image_ex) = (Inr 0, store_at s_ex 0 plain_ex)"
  using decrypt_ok [of "store_at s_ex 0 image_ex" 0 id_ex id_ex key_ex M_ex]
  by (simp add: build_key_image_ex length_image_ex gate1_ex gate2_ex header_decrypted_ex_slices
      decrypted_ex)

lemma decrypt_Inr:
  assumes "decrypt M mn eu r s = (Inr r', s')"
  shows "r' = r \<and> (\<exists>key. build_key (getslice (objs s r) 0x48 0x50) mn eu = Inr key
             \<and> s' = store_at s r (decrypted M key (objs s r)))"
  using assms
  by (auto simp: decrypt_def prog_defs Let_def decrypted_def header_decrypted_def store_at_def
      split: sum.splits if_splits)

lemma decode_ex_store:
  "snd (decode M_ex tbl_ex id_ex id_ex 0 (store_at s_ex 0 image_ex)) = store_at s_ex 0 plain_ex"
  by (simp add: decode_eq decrypt_ex)

lemma unpack_gate3_fail:
  assumes "0x42 \<le> length b"
    and "checksum M (getslice b 0x00 0x40) \<noteq> of_le (getslice b 0x40 0x42)"
  shows "unpack M tbl b
     = Inl (Exception (''invalid content checksum: should have ''
                         @ py_hex (uint (of_le (getslice b 0x40 0x42) :: 16 word))
                         @ '' but have '' @ py_hex (uint (checksum M (getslice b 0x00 0x40)))))"
  using assms by (simp add: unpack_def unpack_H_def Let_def)

lemma unpack_Inr_gate3:
  assumes "unpack M tbl b = Inr c"
  shows "checksum M (getslice b 0x00 0x40) = of_le (getslice b 0x40 0x42)"
  using assms
  by (auto simp: unpack_def unpack_H_def Let_def bindE_eq_Inr split: if_splits)

lemma decrypted_slices:
  assumes "\<forall>k x. length (crypto_decrypt M k x) = length x" and "0x60 \<le> length b"
  shows "length (header_decrypted M key b) = length b"
    and "getslice (header_decrypted M key b) 0x58 0x60 = getslice b 0x58 0x60"
    and "getslice (header_decrypted M key b) 0x60 0x62 = getslice b 0x60 0x62"
    and "getslice (header_decrypted M key b) 0x00 0x40 = crypto_decrypt M key (getslice b 0x00 0x40)"
    and "length (decrypted M key b) = length b"
    and "getslice (decrypted M key b) 0x00 0x40 = crypto_decrypt M key (getslice b 0x00 0x40)"
    and "getslice (decrypted M key b) 0x58 0x60 = crypto_decrypt M key (getslice b 0x58 0x60)"
    and "getslice (decrypted M key b) 0x40 0x42 = getslice b 0x40 0x42"
    and "getslice (decrypted M key b) 0x62 0x64 = getslice b 0x62 0x64"
  using assms
  by (simp_all add: decrypted_def header_decrypted_def Let_def setslice_eq_overwrite
      slice_overwrite_same slice_overwrite_other)

lemma int_of_double_19: "int_of_double 0x4033000000000000 = Inr 19"
  by (simp add: int_of_double_def Let_def)

lemma unpack_ex: "unpack M_ex tbl_ex plain_ex = Inr c_ex"
  unfolding unpack_def Let_def
  by (simp add: M_ex_def tbl_ex_def c_ex_def dt_ex_def plain_ex_def sum16_def getslice_def
      unpack_H_def unpack_from_def int_of_double_19 get_name_from_id_def unpack_HBBBBH_def
      new_datetime_def days_in_month_def is_leap_def bytes_hex_def hexdigit_def decode_utf8_def char_of_def bit_Suc_0_iff)

lemma decode_ex:
  "decode M_ex tbl_ex id_ex id_ex 0 (store_at s_ex 0 image_ex) = (Inr c_ex, store_at s_ex 0 plain_ex)"
  by (simp add: decode_eq decrypt_ex unpack_ex)

lemma pack_into_Inr:
  "pack_into buf off p = Inr b' \<longleftrightarrow>
     (\<exists>bs. p = Inr bs \<and> off + length bs \<le> length buf \<and> b' = overwrite buf off bs)"
  by (cases p) (auto simp: pack_into_def)

lemma pack_length:
  assumes "pack M tbl c = Inr b"
  shows "length b = 0x71"
  using assms
  by (auto simp: pack_def Let_def bindE_eq_Inr pack_into_Inr)

lemma encode_Inr:
  assumes "encode M tbl mn eu c s = (Inr r, s1)"
  shows "\<exists>b key. pack M tbl c = Inr b \<and> build_key (getslice b 0x48 0x50) mn eu = Inr key
           \<and> r = lim s \<and> objs s1 r = encrypted M key b"
proof (cases "pack M tbl c")
  case (Inl e)
  with assms show ?thesis by (simp add: encode_eq)
next
  case (Inr b)
  with assms show ?thesis
    by (auto simp: encode_eq encrypt_Inr_iff)
qed

lemma getslice_flip_bit_at:
  assumes "hi \<le> length b" and "lo \<le> hi"
  shows "getslice (flip_bit_at b i k) lo hi
           = (if lo \<le> i \<and> i < hi then flip_bit_at (getslice b lo hi) (i - lo) k
              else getslice b lo hi)"
  using assms
  by (auto simp: getslice_def flip_bit_at_def take_update_swap drop_update_swap
      intro!: nth_equalityI simp: nth_list_update)

lemma sum_list_update_ring:
  fixes xs :: "'a::comm_ring list"
  shows "i < length xs \<Longrightarrow> sum_list (xs[i := v]) = sum_list xs - xs ! i + v"
  by (induction xs arbitrary: i) (auto split: nat.splits)

lemma flip_bit_neq: "k < 8 \<Longrightarrow> flip_bit k (x :: byte) \<noteq> x"
proof
  assume k: "k < 8" and eq: "flip_bit k x = x"
  have "bit (flip_bit k x) k \<longleftrightarrow> \<not> bit x k"
    using k by (simp add: bit_flip_bit_iff)
  with eq show False by simp
qed

lemma ucast_byte_inj:
  assumes "(ucast (a :: byte) :: 16 word) = ucast (b :: byte)"
  shows "a = b"
proof (rule bit_word_eqI)
  fix n assume n: "n < LENGTH(8)"
  then have "bit a n = bit (ucast a :: 16 word) n"
    by (simp add: bit_ucast_iff)
  also have "\<dots> = bit (ucast b :: 16 word) n"
    using assms by simp
  also have "\<dots> = bit b n"
    using n by (simp add: bit_ucast_iff)
  finally show "bit a n = bit b n" .
qed

lemma sum16_detects:
  assumes "i < length bs" and "k < 8"
  shows "sum16 (flip_bit_at bs i k) \<noteq> sum16 bs"
proof
  assume eq: "sum16 (flip_bit_at bs i k) = sum16 bs"
  have "sum16 (flip_bit_at bs i k)
          = sum16 bs - ucast (bs ! i) + ucast (flip_bit k (bs ! i))"
    using assms(1) by (simp add: sum16_def flip_bit_at_def map_update sum_list_update_ring)
  with eq have "(ucast (flip_bit k (bs ! i)) :: 16 word) = ucast (bs ! i)"
    by simp
  then show False
    using flip_bit_neq [OF assms(2)] ucast_byte_inj by blast
qed

lemma length_fmt_d [simp]: "length (fmt_d x) = 8"
  by (simp add: fmt_d_def)

lemma fmt_H_length: "fmt_H v = Inr bs \<Longrightarrow> length bs = 2"
  by (auto simp: fmt_H_def split: if_splits)

lemma fmt_B_length: "fmt_B v = Inr bs \<Longrightarrow> length bs = 1"
  by (auto simp: fmt_B_def split: if_splits)

lemma fmt_HBBBBH_length: "fmt_HBBBBH y mo d h mi s = Inr bs \<Longrightarrow> length bs = 8"
  by (auto simp: fmt_HBBBBH_def bindE_eq_Inr dest!: fmt_H_length fmt_B_length)

lemma pack_layout:
  assumes "pack M tbl c = Inr b"
  shows "\<exists>mid d bv dm du key.
      get_id_from_name tbl (material_name c) = Inr mid \<and> double_of_int mid = Inr d
    \<and> fmt_H (version c) = Inr bv
    \<and> fmt_HBBBBH (int (year (manufacturing_date c)) - 1900) (int (month (manufacturing_date c)))
         (int (day (manufacturing_date c))) (int (hour (manufacturing_date c)))
         (int (minute (manufacturing_date c))) (int (second (manufacturing_date c))) = Inr dm
    \<and> fmt_HBBBBH (int (year (last_use_date c)) - 1900) (int (month (last_use_date c)))
         (int (day (last_use_date c))) (int (hour (last_use_date c)))
         (int (minute (last_use_date c))) (int (second (last_use_date c))) = Inr du
    \<and> fromhex (key_fragment c) = Inr key
    \<and> length b = 0x71
    \<and> getslice b 0x00 0x08 = fmt_d (serial_number c)
    \<and> getslice b 0x08 0x10 = fmt_d d
    \<and> getslice b 0x10 0x24 = fmt_s 20 (encode_utf8 (manufacturing_lot c))
    \<and> getslice b 0x24 0x26 = bv
    \<and> getslice b 0x28 0x30 = dm
    \<and> getslice b 0x30 0x38 = du
    \<and> getslice b 0x38 0x40 = fmt_d (initial_material_quantity c)
    \<and> getslice b 0x40 0x42 = le_bytes 2 (checksum M (getslice b 0x00 0x40))
    \<and> getslice b 0x48 0x50 = fmt_s 8 key
    \<and> getslice b 0x50 0x52 = le_bytes 2 (checksum M (getslice b 0x48 0x50))
    \<and> getslice b 0x58 0x60 = fmt_d (current_material_quantity c)
    \<and> getslice b 0x62 0x64 = le_bytes 2 (checksum M (getslice b 0x58 0x60))
    \<and> getslice b 0x68 0x71 = fmt_s 9 (encode_utf8 (signature c))"
  using assms
  apply (clarsimp simp: pack_def Let_def bindE_eq_Inr pack_into_Inr)
  apply (frule fmt_H_length)
  apply (frule fmt_HBBBBH_length)
  apply (frule fmt_HBBBBH_length [where y = "int (year (last_use_date c)) - 1900"])
  apply (simp add: slice_overwrite_same slice_overwrite_other)
  done

lemma pack_long: "pack M_ex tbl_ex c_long = Inr packed_long"
  unfolding pack_def zeros_113 Let_def
  by (simp add: M_ex_def tbl_ex_def c_long_def c_ex_def dt_ex_def double_of_int_19 fromhex_ex
      get_id_from_name_def pack_into_def overwrite_def fmt_d_def fmt_s_def fmt_H_def fmt_B_def
      fmt_HBBBBH_def encode_utf8_def getslice_def sum16_def packed_long_def
      replicate_numeral le_bytes_numeral hexval_def isspace_def)

lemma encode_succeeds:
  assumes "pack M tbl c = Inr b" and "8 \<le> length mn" and "7 \<le> length eu"
  shows "\<exists>key. build_key (getslice b 0x48 0x50) mn eu = Inr key
           \<and> encode M tbl mn eu c s
               = (Inr (lim s), (store_at s (lim s) (encrypted M key b))\<lparr>lim := Suc (lim s)\<rparr>)"
proof -
  have lb: "length b = 0x71" using assms(1) by (rule pack_length)
  then obtain key where key: "build_key (getslice b 0x48 0x50) mn eu = Inr key"
    using build_key_ok [of "getslice b 0x48 0x50" mn eu] assms(2,3) by auto
  have "encrypt M mn eu (lim s) ((store_at s (lim s) b)\<lparr>lim := Suc (lim s)\<rparr>)
          = (Inr (lim s), store_at ((store_at s (lim s) b)\<lparr>lim := Suc (lim s)\<rparr>) (lim s)
                            (encrypted M key b))"
    using key lb
      encrypt_ok [of "(store_at s (lim s) b)\<lparr>lim := Suc (lim s)\<rparr>" "lim s" mn eu key M]
    by (simp add: store_at_def)
  then show ?thesis
    using key assms(1) by (simp add: encode_eq store_at_def)
qed

lemma fmt_s_take: "fmt_s n (encode_utf8 (take n l)) = fmt_s n (encode_utf8 l)"
  by (simp add: fmt_s_def encode_utf8_def take_map min_def)

lemma bit_length_bounds:
  "0 < n \<Longrightarrow> 2 ^ (bit_length n - 1) \<le> n \<and> n < 2 ^ bit_length n"
proof (induction n rule: bit_length.induct)
  case (1 n)
  show ?case
  proof (cases "n div 2 = 0")
    case True
    with 1(2) have "n = 1" by (auto simp: div_eq_0_iff)
    then show ?thesis by (simp add: bit_length.simps)
  next
    case False
    then have pos: "0 < n div 2" by simp
    from 1(1) [OF _ pos] 1(2)
    have ih: "2 ^ (bit_length (n div 2) - 1) \<le> n div 2" "n div 2 < 2 ^ bit_length (n div 2)"
      by auto
    have bl: "bit_length n = Suc (bit_length (n div 2))"
      using 1(2) by (simp add: bit_length.simps [of n])
    have blpos: "0 < bit_length (n div 2)"
      using pos by (simp add: bit_length.simps [of "n div 2"])
    then obtain j where j: "bit_length (n div 2) = Suc j"
      by (cases "bit_length (n div 2)") auto
    from ih j have "2 * 2 ^ j \<le> n" "n < 2 * 2 ^ Suc j"
      by auto
    then show ?thesis
      by (simp add: bl j)
  qed
qed

lemma div_mod_block:
  fixes f p A :: nat
  assumes "f < p"
  shows "(A * p + f) div p = A" and "(A * p + f) mod p = f"
  using assms by simp_all

lemma ieee_fields:
  fixes f E sg :: nat
  assumes "f < 2 ^ 52" and "E < 2 ^ 11" and "sg \<le> 1"
  shows "sg * 2 ^ 63 + E * 2 ^ 52 + f < 2 ^ 64"
    and "(sg * 2 ^ 63 + E * 2 ^ 52 + f) div 2 ^ 63 = sg"
    and "((sg * 2 ^ 63 + E * 2 ^ 52 + f) div 2 ^ 52) mod 2 ^ 11 = E"
    and "(sg * 2 ^ 63 + E * 2 ^ 52 + f) mod 2 ^ 52 = f"
proof -
  have e: "E * 2 ^ 52 + f < 2 ^ 63"
  proof -
    have "E * 2 ^ 52 + f < (E + 1) * 2 ^ 52" using assms(1) by simp
    also have "\<dots> \<le> 2 ^ 11 * 2 ^ 52" using assms(2) by (intro mult_right_mono) simp_all
    also have "\<dots> = (2::nat) ^ 63" by (simp flip: power_add)
    finally show ?thesis .
  qed
  have eq: "sg * 2 ^ 63 + E * 2 ^ 52 + f = (sg * 2 ^ 11 + E) * 2 ^ 52 + f"
    by (simp add: algebra_simps flip: power_add)
  show "sg * 2 ^ 63 + E * 2 ^ 52 + f < 2 ^ 64"
    using e assms(3) by (cases "sg = 0") auto
  show "(sg * 2 ^ 63 + E * 2 ^ 52 + f) div 2 ^ 63 = sg"
    using e by (simp add: add.assoc)
  have "((sg * 2 ^ 11 + E) * 2 ^ 52 + f) div 2 ^ 52 = sg * 2 ^ 11 + E"
    using assms(1) by (rule div_mod_block)
  moreover have "(sg * 2 ^ 11 + E) mod 2 ^ 11 = E"
    using assms(2) by (rule div_mod_block)
  ultimately show "((sg * 2 ^ 63 + E * 2 ^ 52 + f) div 2 ^ 52) mod 2 ^ 11 = E"
    by (simp only: eq)
  have "((sg * 2 ^ 11 + E) * 2 ^ 52 + f) mod 2 ^ 52 = f"
    using assms(1) by (rule div_mod_block)
  then show "(sg * 2 ^ 63 + E * 2 ^ 52 + f) mod 2 ^ 52 = f"
    by (simp only: eq)
qed

text \<open>An integer below \<open>2^53\<close> in magnitude survives the conversion to a float and back.\<close>

lemma double_of_int_exact:
  assumes "\<bar>i\<bar> < 2 ^ 53"
  shows "\<exists>d. double_of_int i = Inr d \<and> int_of_double d = Inr i"
proof (cases "i = 0")
  case True
  then show ?thesis by (simp add: double_of_int_def int_of_double_def Let_def)
next
  case False
  define n where "n = nat \<bar>i\<bar>"
  define k where "k = bit_length n - 1"
  define sg where "sg = (if i < 0 then 1 else 0 :: nat)"
  define f where "f = n * 2 ^ (52 - k) - 2 ^ 52"
  define x where "x = sg * 2 ^ 63 + (k + 1023) * 2 ^ 52 + f"
  have npos: "0 < n" using False by (simp add: n_def)
  have nlt: "n < 2 ^ 53" using assms by (simp add: n_def nat_less_iff)
  from bit_length_bounds [OF npos] have lo: "2 ^ k \<le> n" and hi: "n < 2 ^ bit_length n"
    by (simp_all add: k_def)
  have blpos: "0 < bit_length n" using npos by (simp add: bit_length.simps [of n])
  then have bl: "bit_length n = Suc k" by (simp add: k_def)
  have "k < 53"
  proof (rule power_less_imp_less_exp)
    show "(1::nat) < 2" by simp
    show "(2::nat) ^ k < 2 ^ 53" using lo nlt by (rule le_less_trans)
  qed
  then have k52: "k \<le> 52" by simp
  have p: "(2::nat) ^ k * 2 ^ (52 - k) = 2 ^ 52"
    using k52 by (simp flip: power_add)
  have m_lo: "2 ^ 52 \<le> n * 2 ^ (52 - k)"
    using mult_le_mono1 [OF lo, of "2 ^ (52 - k)"] by (simp add: p)
  have "n * 2 ^ (52 - k) < 2 ^ Suc k * 2 ^ (52 - k)"
    using hi by (simp add: bl)
  also have "\<dots> = 2 * 2 ^ 52" using p by simp
  finally have m_hi: "n * 2 ^ (52 - k) < 2 * 2 ^ 52" .
  have f52: "f < 2 ^ 52" using m_hi m_lo by (simp add: f_def)
  have m: "2 ^ 52 + f = n * 2 ^ (52 - k)" using m_lo by (simp add: f_def)
  have E: "k + 1023 < 2 ^ 11" using k52 by simp
  have sg1: "sg \<le> 1" by (simp add: sg_def)
  note fld = ieee_fields [OF f52 E sg1, folded x_def]
  have d: "double_of_int i = Inr (word_of_nat x)"
    using False k52
    by (simp add: double_of_int_def Let_def x_def sg_def f_def k_def n_def)
  have ux: "unat (word_of_nat x :: 64 word) = x"
    using fld(1) by (simp add: unsigned_of_nat take_bit_nat_eq_self)
  have a: "(2 ^ 52 + f) div 2 ^ (1075 - (k + 1023)) = n"
  proof -
    have "1075 - (k + 1023) = 52 - k" by simp
    moreover have "n * 2 ^ (52 - k) div 2 ^ (52 - k) = n" by simp
    ultimately show ?thesis by (simp only: m)
  qed
  have neg: "(x div 2 ^ 63 = 1) = (i < 0)"
    using fld(2) by (simp add: sg_def)
  have res: "(if i < 0 then - int n else int n) = i"
    by (simp add: n_def)
  have "int_of_double (word_of_nat x) = Inr i"
  proof (cases "k = 52")
    case True
    then show ?thesis
      unfolding int_of_double_def Let_def ux fld(3) fld(4) neg
      using m res by (auto split: if_splits)
  next
    case False
    with k52 have "k < 52" by simp
    then show ?thesis
      unfolding int_of_double_def Let_def ux fld(3) fld(4) neg
      using a res by (auto split: if_splits)
  qed
  with d show ?thesis by simp
qed

lemma byte_of_char: "unat (word_of_nat (of_char c) :: byte) = of_char c"
proof -
  have "(of_char c :: nat) < 256" by (rule nat_of_char_less_256)
  then show ?thesis by (simp add: unsigned_of_nat take_bit_nat_eq_self)
qed

lemma decode_encode_utf8 [simp]: "decode_utf8 (encode_utf8 str) = str"
  by (induction str) (simp_all add: decode_utf8_def encode_utf8_def byte_of_char)

lemma length_encode_utf8 [simp]: "length (encode_utf8 str) = length str"
  by (simp add: encode_utf8_def)

lemma encode_utf8_no_nul:
  assumes "CHR 0x00 \<notin> set str"
  shows "0 \<notin> set (encode_utf8 str)"
proof
  assume "0 \<in> set (encode_utf8 str)"
  then obtain c where c: "c \<in> set str" and z: "(word_of_nat (of_char c) :: byte) = 0"
    by (auto simp: encode_utf8_def)
  from z have "unat (word_of_nat (of_char c) :: byte) = 0" by simp
  then have "(of_char c :: nat) = 0" by (simp only: byte_of_char)
  then have "(of_char c :: nat) = of_char (CHR 0x00)" by simp
  then have "c = CHR 0x00" by (simp only: of_char_eq_iff)
  with c assms show False by simp
qed

lemma takeWhile_pad:
  "0 \<notin> set bs \<Longrightarrow> takeWhile (\<lambda>x. x \<noteq> 0) (bs @ replicate m (0 :: byte)) = bs"
  by (induction bs) (auto simp: takeWhile_eq_Nil_iff)

lemma takeWhile_fmt_s:
  assumes "0 \<notin> set bs" and "length bs \<le> n"
  shows "takeWhile (\<lambda>x. x \<noteq> 0) (fmt_s n bs) = bs"
  using assms by (simp add: fmt_s_def takeWhile_pad)

lemma decode_utf8_fmt_s:
  assumes "length str \<le> n"
  shows "decode_utf8 (fmt_s n (encode_utf8 str)) = str @ replicate (n - length str) (CHR 0x00)"
proof -
  have "decode_utf8 (replicate m 0) = replicate m (CHR 0x00)" for m
    by (simp add: decode_utf8_def char_of_def)
  moreover have "decode_utf8 (xs @ ys) = decode_utf8 xs @ decode_utf8 ys" for xs ys
    by (simp add: decode_utf8_def)
  ultimately show ?thesis
    using assms by (simp add: fmt_s_def)
qed

lemma fmt_H_Inr:
  assumes "fmt_H v = Inr bv"
  shows "0 \<le> v \<and> v \<le> 0xFFFF \<and> bv = le_bytes 2 (word_of_int v :: 16 word)
           \<and> uint (of_le bv :: 16 word) = v"
proof -
  from assms have r: "0 \<le> v" "v \<le> 0xFFFF" and bv: "bv = le_bytes 2 (word_of_int v :: 16 word)"
    by (auto simp: fmt_H_def split: if_splits)
  have "uint (word_of_int v :: 16 word) = v"
    using r by (simp add: uint_word_of_int take_bit_int_eq_self)
  with r bv show ?thesis by simp
qed

lemma uint_byte_of_nat:
  assumes "n \<le> 255"
  shows "uint (word_of_int (int n) :: byte) = int n"
  using assms by (simp add: unsigned_of_nat take_bit_nat_eq_self)

lemma uint_H_of_int:
  assumes "0 \<le> v" and "v \<le> 0xFFFF"
  shows "uint (word_of_int v :: 16 word) = v"
  using assms by (simp add: uint_word_of_int take_bit_int_eq_self)

lemma days_in_month_le: "days_in_month y mo \<le> 31"
  by (simp add: days_in_month_def)

lemma fmt_date_valid:
  assumes "valid_datetime d"
  shows "fmt_HBBBBH (int (year d) - 1900) (int (month d)) (int (day d)) (int (hour d))
           (int (minute d)) (int (second d))
         = Inr (le_bytes 2 (word_of_int (int (year d) - 1900) :: 16 word)
                @ [word_of_int (int (month d)), word_of_int (int (day d)),
                   word_of_int (int (hour d)), word_of_int (int (minute d))]
                @ le_bytes 2 (word_of_int (int (second d)) :: 16 word))"
proof -
  have "int (day d) \<le> 31"
    using assms days_in_month_le [of "int (year d)" "int (month d)"]
    by (simp add: valid_datetime_def)
  then show ?thesis
    using assms by (simp add: valid_datetime_def fmt_HBBBBH_def fmt_H_def fmt_B_def)
qed

lemma new_datetime_of_date:
  assumes "valid_datetime d"
    and "bs = le_bytes 2 (word_of_int (int (year d) - 1900) :: 16 word)
                @ [word_of_int (int (month d)), word_of_int (int (day d)),
                   word_of_int (int (hour d)), word_of_int (int (minute d))]
                @ le_bytes 2 (word_of_int (int (second d)) :: 16 word)"
  shows "(case unpack_HBBBBH bs of (y, mo, dd, h, mi, s) \<Rightarrow> new_datetime (y + 1900) mo dd h mi s)
           = Inr (truncate_seconds d)"
proof -
  have d31: "day d \<le> 31"
    using assms(1) days_in_month_le [of "int (year d)" "int (month d)"]
    by (simp add: valid_datetime_def)
  have y: "uint (word_of_int (int (year d) - 1900) :: 16 word) = int (year d) - 1900"
    using assms(1) by (intro uint_H_of_int) (simp_all add: valid_datetime_def)
  have s: "uint (word_of_int (int (second d)) :: 16 word) = int (second d)"
    using assms(1) by (intro uint_H_of_int) (simp_all add: valid_datetime_def)
  have mo: "uint (word_of_int (int (month d)) :: byte) = int (month d)"
    using assms(1) by (intro uint_byte_of_nat) (simp add: valid_datetime_def)
  have dd: "uint (word_of_int (int (day d)) :: byte) = int (day d)"
    using d31 by (intro uint_byte_of_nat) simp
  have h: "uint (word_of_int (int (hour d)) :: byte) = int (hour d)"
    using assms(1) by (intro uint_byte_of_nat) (simp add: valid_datetime_def)
  have mi: "uint (word_of_int (int (minute d)) :: byte) = int (minute d)"
    using assms(1) by (intro uint_byte_of_nat) (simp add: valid_datetime_def)
  have t2: "take 2 bs = le_bytes 2 (word_of_int (int (year d) - 1900) :: 16 word)"
    and d6: "drop 6 bs = le_bytes 2 (word_of_int (int (second d)) :: 16 word)"
    and n2: "bs ! 2 = word_of_int (int (month d))" and n3: "bs ! 3 = word_of_int (int (day d))"
    and n4: "bs ! 4 = word_of_int (int (hour d))" and n5: "bs ! 5 = word_of_int (int (minute d))"
    by (simp_all add: assms(2) nth_append)
  have u: "unpack_HBBBBH bs = (int (year d) - 1900, int (month d), int (day d), int (hour d),
             int (minute d), int (second d))"
    unfolding unpack_HBBBBH_def t2 d6 n2 n3 n4 n5 of_le_le_bytes_16 y s mo dd h mi ..
  show ?thesis
    unfolding u using assms(1)
    by (simp add: new_datetime_def valid_datetime_def truncate_seconds_def)
qed

lemma getslice_sub:
  assumes "hi \<le> n"
  shows "getslice (getslice b 0 n) lo hi = getslice b lo hi"
proof -
  have "take (hi - lo) (drop lo (take n b)) = take (hi - lo) (drop lo b)"
    using assms by (simp add: drop_take min_def)
  then show ?thesis by (simp add: getslice_def)
qed

lemma encrypted_plain_slices:
  assumes "0x71 \<le> length b"
  shows "getslice (encrypted M key b) 0x40 0x42 = getslice b 0x40 0x42"
    and "getslice (encrypted M key b) 0x62 0x64 = getslice b 0x62 0x64"
    and "getslice (encrypted M key b) 0x68 0x71 = getslice b 0x68 0x71"
  using assms
  by (simp_all add: encrypted_def Let_def slice_overwrite_other)

lemma decrypted_plain_slices:
  assumes "\<forall>k x. length (crypto_decrypt M k x) = length x" and "0x71 \<le> length b"
  shows "getslice (decrypted M key b) 0x48 0x50 = getslice b 0x48 0x50"
    and "getslice (decrypted M key b) 0x68 0x71 = getslice b 0x68 0x71"
  using assms
  by (simp_all add: decrypted_def header_decrypted_def Let_def setslice_eq_overwrite
      slice_overwrite_other)

text \<open>
  Under the cipher's contract, decrypting an encrypted buffer restores every region that
  \<open>unpack\<close> reads.
\<close>

lemma decrypted_encrypted:
  assumes "cipher_contract M" and "length b = 0x71"
  shows "length (decrypted M key (encrypted M key b)) = 0x71"
    and "getslice (decrypted M key (encrypted M key b)) 0x00 0x40 = getslice b 0x00 0x40"
    and "getslice (decrypted M key (encrypted M key b)) 0x40 0x42 = getslice b 0x40 0x42"
    and "getslice (decrypted M key (encrypted M key b)) 0x48 0x50 = getslice b 0x48 0x50"
    and "getslice (decrypted M key (encrypted M key b)) 0x58 0x60 = getslice b 0x58 0x60"
    and "getslice (decrypted M key (encrypted M key b)) 0x62 0x64 = getslice b 0x62 0x64"
    and "getslice (decrypted M key (encrypted M key b)) 0x68 0x71 = getslice b 0x68 0x71"
proof -
  from assms(1) have lenE: "\<And>k x. length (crypto_encrypt M k x) = length x"
    and lenD: "\<forall>k x. length (crypto_decrypt M k x) = length x"
    and inv: "\<And>k x. crypto_decrypt M k (crypto_encrypt M k x) = x"
    by (simp_all add: cipher_contract_def)
  have b62: "0x62 \<le> length b" and b71: "0x71 \<le> length b" using assms(2) by simp_all
  note E = encrypted_slices [OF b62, of M key]
  have lE: "length (encrypted M key b) = 0x71" using E(1) assms(2) by simp
  then have e60: "0x60 \<le> length (encrypted M key b)"
    and e71: "0x71 \<le> length (encrypted M key b)" by simp_all
  note D = decrypted_slices [OF lenD e60, of key]
  note D' = decrypted_plain_slices [OF lenD e71, of key]
  note E' = encrypted_plain_slices [OF b71, of M key]
  have h: "fmt_s 64 (crypto_encrypt M key (getslice b 0x00 0x40))
             = crypto_encrypt M key (getslice b 0x00 0x40)"
    using assms(2) by (intro fmt_s_exact) (simp add: lenE)
  have q: "fmt_s 8 (crypto_encrypt M key (getslice b 0x58 0x60))
             = crypto_encrypt M key (getslice b 0x58 0x60)"
    using assms(2) by (intro fmt_s_exact) (simp add: lenE)
  show "length (decrypted M key (encrypted M key b)) = 0x71"
    using D(5) lE by simp
  show "getslice (decrypted M key (encrypted M key b)) 0x00 0x40 = getslice b 0x00 0x40"
    by (simp only: D(6) E(2) h inv)
  show "getslice (decrypted M key (encrypted M key b)) 0x40 0x42 = getslice b 0x40 0x42"
    by (simp only: D(8) E'(1))
  show "getslice (decrypted M key (encrypted M key b)) 0x48 0x50 = getslice b 0x48 0x50"
    by (simp only: D'(1) E(6))
  show "getslice (decrypted M key (encrypted M key b)) 0x58 0x60 = getslice b 0x58 0x60"
    by (simp only: D(7) E(3) q inv)
  show "getslice (decrypted M key (encrypted M key b)) 0x62 0x64 = getslice b 0x62 0x64"
    by (simp only: D(9) E'(2))
  show "getslice (decrypted M key (encrypted M key b)) 0x68 0x71 = getslice b 0x68 0x71"
    by (simp only: D'(2) E'(3))
qed

text \<open>\<open>decrypt\<close> passes both of its gates on a buffer that \<open>encrypt\<close> has written.\<close>

lemma decrypt_encrypted:
  assumes "cipher_contract M" and "length b = 0x71"
    and "build_key (getslice b 0x48 0x50) mn eu = Inr key"
    and "objs s r = encrypted M key b"
  shows "decrypt M mn eu r s = (Inr r, store_at s r (decrypted M key (encrypted M key b)))"
proof -
  from assms(1) have lenD: "\<forall>k x. length (crypto_decrypt M k x) = length x"
    by (simp add: cipher_contract_def)
  have b62: "0x62 \<le> length b" using assms(2) by simp
  note E = encrypted_slices [OF b62, of M key]
  have lE: "length (encrypted M key b) = 0x71" using E(1) assms(2) by simp
  then have e60: "0x60 \<le> length (encrypted M key b)" by simp
  note D = decrypted_slices [OF lenD e60, of key]
  have k: "build_key (getslice (objs s r) 0x48 0x50) mn eu = Inr key"
    by (simp only: assms(4) E(6) assms(3))
  have l1: "0x48 \<le> length (objs s r)" using lE by (simp add: assms(4))
  have g1: "checksum M (getslice (objs s r) 0x00 0x40) = of_le (getslice (objs s r) 0x46 0x48)"
    unfolding assms(4) by (subst E(4)) simp
  have l2: "0x62 \<le> length (header_decrypted M key (objs s r))"
    unfolding assms(4) using D(1) lE by simp
  have g2: "checksum M (getslice (header_decrypted M key (objs s r)) 0x58 0x60)
              = of_le (getslice (header_decrypted M key (objs s r)) 0x60 0x62)"
    unfolding assms(4) D(2) D(3) by (subst E(5)) simp
  show ?thesis
    using decrypt_ok [OF k l1 g1 l2 g2] by (simp only: assms(4))
qed

text \<open>\<open>unpack\<close> depends on seven regions of its argument only.\<close>

lemma unpack_cong:
  assumes "length b = 0x71" and "length b' = 0x71"
    and "getslice b 0x00 0x40 = getslice b' 0x00 0x40"
    and "getslice b 0x40 0x42 = getslice b' 0x40 0x42"
    and "getslice b 0x48 0x50 = getslice b' 0x48 0x50"
    and "getslice b 0x58 0x60 = getslice b' 0x58 0x60"
    and "getslice b 0x62 0x64 = getslice b' 0x62 0x64"
    and "getslice b 0x68 0x71 = getslice b' 0x68 0x71"
  shows "unpack M tbl b = unpack M tbl b'"
proof -
  have sub: "getslice b lo hi = getslice b' lo hi" if "hi \<le> 0x40" for lo hi
    using getslice_sub [OF that, of b lo] getslice_sub [OF that, of b' lo] assms(3) by simp
  have s: "getslice b 0x00 0x08 = getslice b' 0x00 0x08"
    "getslice b 0x08 0x10 = getslice b' 0x08 0x10"
    "getslice b 0x10 0x24 = getslice b' 0x10 0x24"
    "getslice b 0x24 0x26 = getslice b' 0x24 0x26"
    "getslice b 0x28 0x30 = getslice b' 0x28 0x30"
    "getslice b 0x30 0x38 = getslice b' 0x30 0x38"
    "getslice b 0x38 0x40 = getslice b' 0x38 0x40"
    by (rule sub, simp)+
  show ?thesis
    unfolding unpack_def unpack_from_def Let_def
    by (simp add: assms s cong: if_cong)
qed

text \<open>
  Whenever \<open>pack\<close> succeeds and the identifiers are long enough, \<open>encode\<close> returns an
  image, and \<open>decode\<close> of that image is \<open>unpack\<close> of what \<open>pack\<close> laid out.
\<close>

lemma decode_encode:
  assumes "cipher_contract M" and "pack M tbl c = Inr b"
    and "8 \<le> length mn" and "7 \<le> length eu"
  shows "fst (encode M tbl mn eu c s) = Inr (lim s)"
    and "fst (decode M tbl mn eu (lim s) (snd (encode M tbl mn eu c s))) = unpack M tbl b"
proof -
  have lb: "length b = 0x71" using assms(2) by (rule pack_length)
  from encode_succeeds [OF assms(2,3,4), of s] obtain key
    where key: "build_key (getslice b 0x48 0x50) mn eu = Inr key"
      and enc: "encode M tbl mn eu c s
                 = (Inr (lim s), (store_at s (lim s) (encrypted M key b))\<lparr>lim := Suc (lim s)\<rparr>)"
    by blast
  define s1 where "s1 = (store_at s (lim s) (encrypted M key b))\<lparr>lim := Suc (lim s)\<rparr>"
  have o: "objs s1 (lim s) = encrypted M key b" by (simp add: s1_def)
  note dec = decrypt_encrypted [OF assms(1) lb key o]
  note DE = decrypted_encrypted [OF assms(1) lb, of key]
  have "unpack M tbl (decrypted M key (encrypted M key b)) = unpack M tbl b"
    using DE(1) lb DE(2-7) by (rule unpack_cong)
  then have "fst (decode M tbl mn eu (lim s) s1) = unpack M tbl b"
    by (simp add: decode_eq dec)
  then show "fst (decode M tbl mn eu (lim s) (snd (encode M tbl mn eu c s))) = unpack M tbl b"
    by (simp add: enc s1_def)
  show "fst (encode M tbl mn eu c s) = Inr (lim s)" by (simp add: enc)
qed

lemma pack_into_ok:
  "off + length bs \<le> length buf \<Longrightarrow> pack_into buf off (Inr bs) = Inr (overwrite buf off bs)"
  by (simp add: pack_into_def)

text \<open>\<open>pack\<close> returns whenever the five conversions that can raise do not.\<close>

lemma pack_succeeds:
  assumes "get_id_from_name tbl (material_name c) = Inr i" and "double_of_int i = Inr d"
    and "0 \<le> version c" and "version c \<le> 0xFFFF"
    and "valid_datetime (manufacturing_date c)" and "valid_datetime (last_use_date c)"
    and "fromhex (key_fragment c) = Inr k"
  shows "\<exists>b. pack M tbl c = Inr b"
proof -
  have v: "fmt_H (version c) = Inr (le_bytes 2 (word_of_int (version c) :: 16 word))"
    using assms(3,4) by (simp add: fmt_H_def)
  show ?thesis
    unfolding pack_def Let_def
    by (simp add: assms(1,2,7) v fmt_date_valid [OF assms(5)] fmt_date_valid [OF assms(6)]
        pack_into_ok)
qed

text \<open>What \<open>unpack\<close> reads from the bytes that \<open>pack\<close> has laid out.\<close>

lemma unpack_pack:
  assumes "pack M tbl c = Inr b"
    and "get_id_from_name tbl (material_name c) = Inr i" and "\<bar>i\<bar> < 2 ^ 53"
    and "get_name_from_id tbl i = Inr (material_name c)"
    and "valid_datetime (manufacturing_date c)" and "valid_datetime (last_use_date c)"
    and "fromhex (key_fragment c) = Inr k"
  shows "unpack M tbl b
     = Inr (c\<lparr>manufacturing_lot :=
                 decode_utf8 (takeWhile (\<lambda>x. x \<noteq> 0) (fmt_s 20 (encode_utf8 (manufacturing_lot c)))),
               manufacturing_date := truncate_seconds (manufacturing_date c),
               last_use_date := truncate_seconds (last_use_date c),
               key_fragment := bytes_hex (fmt_s 8 k),
               signature := decode_utf8 (fmt_s 9 (encode_utf8 (signature c)))\<rparr>)"
proof -
  from pack_layout [OF assms(1)] obtain mid d bv dm du key where
      L: "get_id_from_name tbl (material_name c) = Inr mid" "double_of_int mid = Inr d"
         "fmt_H (version c) = Inr bv"
         "fmt_HBBBBH (int (year (manufacturing_date c)) - 1900) (int (month (manufacturing_date c)))
            (int (day (manufacturing_date c))) (int (hour (manufacturing_date c)))
            (int (minute (manufacturing_date c))) (int (second (manufacturing_date c))) = Inr dm"
         "fmt_HBBBBH (int (year (last_use_date c)) - 1900) (int (month (last_use_date c)))
            (int (day (last_use_date c))) (int (hour (last_use_date c)))
            (int (minute (last_use_date c))) (int (second (last_use_date c))) = Inr du"
         "fromhex (key_fragment c) = Inr key"
      and len: "length b = 0x71"
      and S: "getslice b 0x00 0x08 = fmt_d (serial_number c)"
         "getslice b 0x08 0x10 = fmt_d d"
         "getslice b 0x10 0x24 = fmt_s 20 (encode_utf8 (manufacturing_lot c))"
         "getslice b 0x24 0x26 = bv"
         "getslice b 0x28 0x30 = dm"
         "getslice b 0x30 0x38 = du"
         "getslice b 0x38 0x40 = fmt_d (initial_material_quantity c)"
         "getslice b 0x40 0x42 = le_bytes 2 (checksum M (getslice b 0x00 0x40))"
         "getslice b 0x48 0x50 = fmt_s 8 key"
         "getslice b 0x58 0x60 = fmt_d (current_material_quantity c)"
         "getslice b 0x62 0x64 = le_bytes 2 (checksum M (getslice b 0x58 0x60))"
         "getslice b 0x68 0x71 = fmt_s 9 (encode_utf8 (signature c))"
    by blast
  have mid: "mid = i" using L(1) assms(2) by simp
  have key: "key = k" using L(6) assms(7) by simp
  from double_of_int_exact [OF assms(3)] L(2) have id: "int_of_double d = Inr i"
    by (auto simp: mid)
  have ver: "uint (of_le bv :: 16 word) = version c"
    using fmt_H_Inr [OF L(3)] by blast
  have dm: "(case unpack_HBBBBH dm of (y, mo, dd, h, mi, s) \<Rightarrow> new_datetime (y + 1900) mo dd h mi s)
              = Inr (truncate_seconds (manufacturing_date c))"
    using assms(5) L(4) [unfolded fmt_date_valid [OF assms(5)]]
    by (intro new_datetime_of_date) simp_all
  have du: "(case unpack_HBBBBH du of (y, mo, dd, h, mi, s) \<Rightarrow> new_datetime (y + 1900) mo dd h mi s)
              = Inr (truncate_seconds (last_use_date c))"
    using assms(6) L(5) [unfolded fmt_date_valid [OF assms(6)]]
    by (intro new_datetime_of_date) simp_all
  have u: "unpack M tbl b
     = Inr \<lparr>serial_number = serial_number c,
            material_name = material_name c,
            manufacturing_lot =
              decode_utf8 (takeWhile (\<lambda>x. x \<noteq> 0) (fmt_s 20 (encode_utf8 (manufacturing_lot c)))),
            manufacturing_date = truncate_seconds (manufacturing_date c),
            last_use_date = truncate_seconds (last_use_date c),
            initial_material_quantity = initial_material_quantity c,
            current_material_quantity = current_material_quantity c,
            key_fragment = bytes_hex (fmt_s 8 k),
            version = version c,
            signature = decode_utf8 (fmt_s 9 (encode_utf8 (signature c)))\<rparr>"
    unfolding unpack_def unpack_from_def Let_def
    by (simp add: len S id ver dm du key assms(4) fmt_d_def)
  show ?thesis
    unfolding u by (cases c) simp
qed

lemma valid_datetime_dt_ex: "valid_datetime dt_ex"
  by (simp add: valid_datetime_def dt_ex_def days_in_month_def)

lemma get_id_from_name_PC: "get_id_from_name tbl_ex ''PC'' = Inr 19"
  by (simp add: get_id_from_name_def tbl_ex_def)

lemma get_name_from_id_19: "get_name_from_id tbl_ex 19 = Inr ''PC''"
  by (simp add: get_name_from_id_def tbl_ex_def)

lemma bytes_hex_ex: "bytes_hex [65, 65, 65, 65, 65, 65, 65, 65] = ''4141414141414141''"
  by (simp add: bytes_hex_def hexdigit_def)

lemma cipher_contract_ex: "cipher_contract M_ex"
  by (simp add: cipher_contract_def M_ex_def shift_encrypt_def shift_decrypt_def comp_def)

section \<open>Key derivation: the byte table\<close>

text \<open>
  C4. \<open>build_key\<close> maps three 8-byte inputs to the 16 bytes given by the fixed table,
  each the one's complement (\<open>0xFF\<close> minus the byte) of the selected input byte; on
  all-zero inputs every output byte is \<open>0xFF\<close>.
\<close>

theorem build_key_table:
  "build_key [k0, k1, k2, k3, k4, k5, k6, k7] [m0, m1, m2, m3, m4, m5, m6, m7]
             [d0, d1, d2, d3, d4, d5, d6, d7]
     = Inr [0xff - k0, 0xff - k2, 0xff - d2, 0xff - k6, 0xff - m0, 0xff - m2, 0xff - d6,
            0xff - m6, 0xff - m7, 0xff - d1, 0xff - m3, 0xff - m1, 0xff - k7, 0xff - d5,
            0xff - k3, 0xff - k1]
   \<and> build_key (replicate 8 0) (replicate 8 0) (replicate 8 0) = Inr (replicate 16 0xff)"
proof -
  have zeros: "replicate 8 (0 :: byte) = [0, 0, 0, 0, 0, 0, 0, 0]"
    by (simp add: eval_nat_numeral)
  have ffs: "replicate 16 (0xff :: byte)
      = [0xff, 0xff, 0xff, 0xff, 0xff, 0xff, 0xff, 0xff, 0xff, 0xff, 0xff, 0xff, 0xff, 0xff,
         0xff, 0xff]"
    by (simp add: eval_nat_numeral)
  show ?thesis
    unfolding zeros ffs build_key_list by simp
qed

text \<open>
  C10. \<open>build_key\<close> reads bytes 0, 1, 2, 3, 6, 7 of the key fragment and of the machine
  number and bytes 1, 2, 5, 6 of the chip identifier, and nothing else: inputs that agree
  there derive the same key, and \<open>decode\<close> with identifiers that agree there gives the
  very same outcome.
\<close>

theorem build_key_unused_bytes:
  assumes "length kf = 8" and "length kf' = 8"
    and "length mn = 8" and "length mn' = 8"
    and "length eu = 8" and "length eu' = 8"
    and "\<forall>i\<in>{0, 1, 2, 3, 6, 7}. kf ! i = kf' ! i \<and> mn ! i = mn' ! i"
    and "\<forall>i\<in>{1, 2, 5, 6}. eu ! i = eu' ! i"
  shows "build_key kf mn eu = build_key kf' mn' eu'
       \<and> decode M tbl mn eu r s = decode M tbl mn' eu' r s"
proof -
  have ids: "build_key ck mn eu = build_key ck mn' eu'" for ck
    using assms by (intro build_key_cong) (simp_all add: getitem_def)
  have "build_key kf mn eu = build_key kf' mn' eu'"
    using assms by (intro build_key_cong) (simp_all add: getitem_def)
  then show ?thesis
    using decode_key_only [of mn eu mn' eu', OF ids] by simp
qed

theorem build_key_unused_bytes_witness:
  "build_key [65, 65, 65, 65, 65, 65, 65, 65] id_ex id_ex
     = build_key [65, 65, 65, 65, 0, 255, 65, 65] [1, 2, 3, 4, 99, 98, 7, 8]
         [77, 2, 3, 66, 55, 6, 7, 44]
   \<and> decode M_ex tbl_ex id_ex id_ex 0 (store_at s_ex 0 image_ex)
     = decode M_ex tbl_ex [1, 2, 3, 4, 99, 98, 7, 8] [77, 2, 3, 66, 55, 6, 7, 44] 0
         (store_at s_ex 0 image_ex)"
  using build_key_unused_bytes [of "[65, 65, 65, 65, 65, 65, 65, 65]"
      "[65, 65, 65, 65, 0, 255, 65, 65]" id_ex "[1, 2, 3, 4, 99, 98, 7, 8]" id_ex
      "[77, 2, 3, 66, 55, 6, 7, 44]" M_ex tbl_ex 0 "store_at s_ex 0 image_ex"]
  by (simp add: id_ex_def)

text \<open>
  C9. The key fragment is never encrypted. Whatever their outcome, \<open>encrypt\<close> and
  \<open>decrypt\<close> (the latter with a cipher that keeps the length of its input, as the
  cipher's contract says) keep the length of the buffer and every byte outside the
  header region \<open>[0x00,0x40)\<close>, the token slots \<open>0x46..0x48\<close> and \<open>0x60..0x62\<close> and
  the quantity region \<open>[0x58,0x60)\<close>; so the key fragment at \<open>0x48\<close>, the key checksum
  at \<open>0x50\<close> and the signature at \<open>0x68\<close> hold the same bytes before and after.
\<close>

theorem key_fragment_unencrypted:
  assumes "\<forall>k x. length (crypto_decrypt M k x) = length x"
    and "encrypt M mn eu r s = (res, s') \<or> decrypt M mn eu r s = (res, s')"
  shows "length (objs s' r) = length (objs s r)
       \<and> (\<forall>i<length (objs s r).
             0x40 \<le> i \<and> i \<noteq> 0x46 \<and> i \<noteq> 0x47 \<and> (i < 0x58 \<or> 0x62 \<le> i)
             \<longrightarrow> objs s' r ! i = objs s r ! i)
       \<and> getslice (objs s' r) 0x48 0x50 = getslice (objs s r) 0x48 0x50
       \<and> getslice (objs s' r) 0x50 0x52 = getslice (objs s r) 0x50 0x52
       \<and> getslice (objs s' r) 0x68 0x71 = getslice (objs s r) 0x68 0x71"
proof -
  have frame: "length (objs s' r) = length (objs s r)
       \<and> (\<forall>i<length (objs s r).
             0x40 \<le> i \<and> i \<noteq> 0x46 \<and> i \<noteq> 0x47 \<and> (i < 0x58 \<or> 0x62 \<le> i)
             \<longrightarrow> objs s' r ! i = objs s r ! i)"
    using assms(2)
  proof
    assume "encrypt M mn eu r s = (res, s')"
    then show ?thesis by (rule encrypt_frame)
  next
    assume "decrypt M mn eu r s = (res, s')"
    with assms(1) have "length (objs s' r) = length (objs s r) \<and>
       (\<forall>i < length (objs s r). 0x40 \<le> i \<and> (i < 0x58 \<or> 0x60 \<le> i)
          \<longrightarrow> objs s' r ! i = objs s r ! i)"
      by (intro decrypt_frame) simp_all
    then show ?thesis by auto
  qed
  have "getslice (objs s' r) 0x48 0x50 = getslice (objs s r) 0x48 0x50"
    using frame by (intro getslice_cong) simp_all
  moreover have "getslice (objs s' r) 0x50 0x52 = getslice (objs s r) 0x50 0x52"
    using frame by (intro getslice_cong) simp_all
  moreover have "getslice (objs s' r) 0x68 0x71 = getslice (objs s r) 0x68 0x71"
    using frame by (intro getslice_cong) simp_all
  ultimately show ?thesis using frame by blast
qed

theorem key_fragment_unencrypted_witness:
  "(\<forall>k x. length (crypto_decrypt M_ex k x) = length x)
   \<and> getslice (objs (snd (encrypt M_ex id_ex id_ex 0 (store_at s_ex 0 packed_ex))) 0) 0x48 0x50
       = [65, 65, 65, 65, 65, 65, 65, 65]
   \<and> getslice (objs (snd (decrypt M_ex id_ex id_ex 0 (store_at s_ex 0 image_ex))) 0) 0x48 0x50
       = [65, 65, 65, 65, 65, 65, 65, 65]"
proof -
  have len: "\<forall>k x. length (crypto_decrypt M_ex k x) = length x"
    by (simp add: M_ex_def shift_decrypt_def)
  have kf1: "getslice packed_ex 0x48 0x50 = [65, 65, 65, 65, 65, 65, 65, 65]"
    by (simp add: getslice_def packed_ex_def)
  have kf2: "getslice image_ex 0x48 0x50 = [65, 65, 65, 65, 65, 65, 65, 65]"
    by (simp add: getslice_def image_ex_def)
  show ?thesis
    using len kf1 kf2
      key_fragment_unencrypted [OF len, of id_ex id_ex 0 "store_at s_ex 0 packed_ex"
        "fst (encrypt M_ex id_ex id_ex 0 (store_at s_ex 0 packed_ex))"
        "snd (encrypt M_ex id_ex id_ex 0 (store_at s_ex 0 packed_ex))"]
      key_fragment_unencrypted [OF len, of id_ex id_ex 0 "store_at s_ex 0 image_ex"
        "fst (decrypt M_ex id_ex id_ex 0 (store_at s_ex 0 image_ex))"
        "snd (decrypt M_ex id_ex id_ex 0 (store_at s_ex 0 image_ex))"]
    by simp
qed

text \<open>
  C3, as stated: the 16-bit values that \<open>encrypt\<close> stores at \<open>0x46\<close> and \<open>0x60\<close> are
  checksums of the plaintext of the two regions. The code does not do that: \<open>encrypt\<close>
  writes the ciphertext through \<open>cartridge_crypted\<close>, which is the same object as
  \<open>cartridge_packed\<close>, and only then reads \<open>cartridge_packed[0x00:0x40]\<close> for the
  checksum. For the example record the stored tokens differ from the checksums of the
  packed plaintext.
\<close>

theorem encrypt_tokens_counterexample:
  "pack M_ex tbl_ex c_ex = Inr packed_ex
   \<and> fst (encode M_ex tbl_ex id_ex id_ex c_ex s_ex) = Inr 0
   \<and> getslice (objs (snd (encode M_ex tbl_ex id_ex id_ex c_ex s_ex)) 0) 0x46 0x48
       \<noteq> le_bytes 2 (checksum M_ex (getslice packed_ex 0x00 0x40))
   \<and> getslice (objs (snd (encode M_ex tbl_ex id_ex id_ex c_ex s_ex)) 0) 0x60 0x62
       \<noteq> le_bytes 2 (checksum M_ex (getslice packed_ex 0x58 0x60))"
proof -
  have "getslice image_ex 0x46 0x48 \<noteq> le_bytes 2 (checksum M_ex (getslice packed_ex 0x00 0x40))"
    by (simp add: M_ex_def sum16_def image_ex_def packed_ex_def getslice_def le_bytes_numeral)
  moreover
  have "getslice image_ex 0x60 0x62 \<noteq> le_bytes 2 (checksum M_ex (getslice packed_ex 0x58 0x60))"
    by (simp add: M_ex_def sum16_def image_ex_def packed_ex_def getslice_def le_bytes_numeral)
  ultimately show ?thesis
    by (simp add: pack_ex encode_ex)
qed

text \<open>
  C3, amended: when \<open>encrypt\<close> returns, the two regions of the returned image hold the
  ciphertext of the bytes that were there (cut or NUL-padded to 64 and to 8 bytes), and
  the values stored at \<open>0x46\<close> and \<open>0x60\<close> are the checksums of those ciphertext bytes,
  as they stand in the returned image.
\<close>

theorem encrypt_tokens_over_ciphertext:
  assumes "encrypt M mn eu r s = (Inr r', s')"
  shows "\<exists>key. build_key (getslice (objs s r) 0x48 0x50) mn eu = Inr key
     \<and> getslice (objs s' r') 0x00 0x40
         = fmt_s 64 (crypto_encrypt M key (getslice (objs s r) 0x00 0x40))
     \<and> getslice (objs s' r') 0x58 0x60
         = fmt_s 8 (crypto_encrypt M key (getslice (objs s r) 0x58 0x60))
     \<and> getslice (objs s' r') 0x46 0x48
         = le_bytes 2 (checksum M (getslice (objs s' r') 0x00 0x40))
     \<and> getslice (objs s' r') 0x60 0x62
         = le_bytes 2 (checksum M (getslice (objs s' r') 0x58 0x60))"
proof -
  from assms obtain key where key: "build_key (getslice (objs s r) 0x48 0x50) mn eu = Inr key"
    and len: "0x62 \<le> length (objs s r)" and r': "r' = r"
    and s': "s' = store_at s r (encrypted M key (objs s r))"
    unfolding encrypt_Inr_iff by blast
  show ?thesis
    using key encrypted_slices [OF len, of M key] by (auto simp: r' s')
qed

theorem encrypt_tokens_over_ciphertext_witness:
  "encrypt M_ex id_ex id_ex 0 (store_at s_ex 0 packed_ex) = (Inr 0, store_at s_ex 0 image_ex)
   \<and> getslice image_ex 0x46 0x48 = le_bytes 2 (checksum M_ex (getslice image_ex 0x00 0x40))
   \<and> getslice image_ex 0x60 0x62 = le_bytes 2 (checksum M_ex (getslice image_ex 0x58 0x60))"
  using encrypt_tokens_over_ciphertext [OF encrypt_ex] encrypt_ex by auto

text \<open>
  C8, as stated: \<open>encrypt\<close> and \<open>decrypt\<close> do not modify the buffer passed in, and
  \<open>decode\<close> leaves the caller's image unchanged. The code works on the caller's
  bytearray (\<open>cartridge_crypted = cartridge_packed\<close> binds a second name to it): after
  \<open>encrypt\<close> the buffer passed in no longer holds the packed bytes, and after \<open>decode\<close>
  the caller's image no longer holds the image.
\<close>

theorem in_place_counterexample:
  "objs (store_at s_ex 0 packed_ex) 0 = packed_ex
   \<and> objs (snd (encrypt M_ex id_ex id_ex 0 (store_at s_ex 0 packed_ex))) 0 \<noteq> packed_ex
   \<and> objs (store_at s_ex 0 image_ex) 0 = image_ex
   \<and> objs (snd (decode M_ex tbl_ex id_ex id_ex 0 (store_at s_ex 0 image_ex))) 0 \<noteq> image_ex"
proof -
  have "image_ex \<noteq> packed_ex"
    by (simp add: image_ex_def packed_ex_def)
  moreover have "plain_ex \<noteq> image_ex"
    by (simp add: image_ex_def plain_ex_def)
  ultimately show ?thesis
    by (simp add: encrypt_ex decode_ex_store)
qed

text \<open>
  C8, amended: \<open>pack\<close>, \<open>unpack\<close> and \<open>build_key\<close> only read their arguments (they
  are functions of the contents), and \<open>encode\<close> changes no object that existed before
  the call. \<open>encrypt\<close> and \<open>decrypt\<close> work in place: they allocate nothing, change no
  object other than the buffer passed in and return the reference they were given, and
  on return that buffer holds the encrypted, respectively decrypted, bytes. \<open>decode\<close>
  changes no object other than the caller's image, which holds the decrypted bytes when
  \<open>decode\<close> returns a record.
\<close>

theorem in_place_effects:
  "(encrypt M mn eu r s = (res, s') \<longrightarrow>
      lim s' = lim s \<and> (\<forall>r'. r' \<noteq> r \<longrightarrow> objs s' r' = objs s r')
      \<and> (\<forall>r'. res = Inr r' \<longrightarrow> r' = r \<and> (\<exists>key. build_key (getslice (objs s r) 0x48 0x50) mn eu = Inr key
              \<and> objs s' r = encrypted M key (objs s r))))
   \<and> (decrypt M mn eu r s = (res, s') \<longrightarrow>
      lim s' = lim s \<and> (\<forall>r'. r' \<noteq> r \<longrightarrow> objs s' r' = objs s r')
      \<and> (\<forall>r'. res = Inr r' \<longrightarrow> r' = r \<and> (\<exists>key. build_key (getslice (objs s r) 0x48 0x50) mn eu = Inr key
              \<and> objs s' r = decrypted M key (objs s r))))
   \<and> (encode M tbl mn eu c s = (res, s') \<longrightarrow> (\<forall>r'<lim s. objs s' r' = objs s r'))
   \<and> (decode M tbl mn eu r s = (res_c, s') \<longrightarrow>
      lim s' = lim s \<and> (\<forall>r'. r' \<noteq> r \<longrightarrow> objs s' r' = objs s r')
      \<and> (\<forall>c'. res_c = Inr c' \<longrightarrow> (\<exists>key. build_key (getslice (objs s r) 0x48 0x50) mn eu = Inr key
              \<and> objs s' r = decrypted M key (objs s r))))"
proof (intro conjI impI)
  assume e: "encrypt M mn eu r s = (res, s')"
  show "lim s' = lim s" using encrypt_others [OF e] by simp
  show "\<forall>r'. r' \<noteq> r \<longrightarrow> objs s' r' = objs s r'" using encrypt_others [OF e] by simp
  show "\<forall>r'. res = Inr r' \<longrightarrow> r' = r \<and> (\<exists>key. build_key (getslice (objs s r) 0x48 0x50) mn eu = Inr key
              \<and> objs s' r = encrypted M key (objs s r))"
    using e by (auto simp: encrypt_Inr_iff)
next
  assume d: "decrypt M mn eu r s = (res, s')"
  show "lim s' = lim s" using decrypt_others [OF d] by simp
  show "\<forall>r'. r' \<noteq> r \<longrightarrow> objs s' r' = objs s r'" using decrypt_others [OF d] by simp
  show "\<forall>r'. res = Inr r' \<longrightarrow> r' = r \<and> (\<exists>key. build_key (getslice (objs s r) 0x48 0x50) mn eu = Inr key
              \<and> objs s' r = decrypted M key (objs s r))"
    using d by (auto dest!: decrypt_Inr)
next
  assume e: "encode M tbl mn eu c s = (res, s')"
  show "\<forall>r'<lim s. objs s' r' = objs s r'"
  proof (cases "pack M tbl c")
    case (Inl err)
    with e show ?thesis by (simp add: encode_eq)
  next
    case (Inr b)
    with e have "encrypt M mn eu (lim s) ((store_at s (lim s) b)\<lparr>lim := Suc (lim s)\<rparr>) = (res, s')"
      by (simp add: encode_eq)
    from encrypt_others [OF this] show ?thesis by (auto simp: store_at_def)
  qed
next
  assume d: "decode M tbl mn eu r s = (res_c, s')"
  obtain res1 s1 where d1: "decrypt M mn eu r s = (res1, s1)"
    by (cases "decrypt M mn eu r s") auto
  have s1: "s' = s1"
    using d d1 by (auto simp: decode_eq split: sum.splits)
  show "lim s' = lim s" using decrypt_others [OF d1] s1 by simp
  show "\<forall>r'. r' \<noteq> r \<longrightarrow> objs s' r' = objs s r'" using decrypt_others [OF d1] s1 by simp
  show "\<forall>c'. res_c = Inr c' \<longrightarrow> (\<exists>key. build_key (getslice (objs s r) 0x48 0x50) mn eu = Inr key
              \<and> objs s' r = decrypted M key (objs s r))"
    using d d1 s1 by (auto simp: decode_eq split: sum.splits dest!: decrypt_Inr)
qed

theorem in_place_effects_witness:
  "objs (snd (encrypt M_ex id_ex id_ex 0 (store_at (store_at s_ex 0 packed_ex) 1 image_ex))) 1
     = image_ex
   \<and> objs (snd (decode M_ex tbl_ex id_ex id_ex 0 (store_at (store_at s_ex 0 image_ex) 1 packed_ex))) 1
     = packed_ex
   \<and> objs (snd (encode M_ex tbl_ex id_ex id_ex c_ex ((store_at s_ex 0 image_ex)\<lparr>lim := 1\<rparr>))) 0
     = image_ex"
  using in_place_effects [where M = M_ex and mn = id_ex and eu = id_ex and r = 0
      and s = "store_at (store_at s_ex 0 packed_ex) 1 image_ex"
      and res = "fst (encrypt M_ex id_ex id_ex 0 (store_at (store_at s_ex 0 packed_ex) 1 image_ex))"
      and s' = "snd (encrypt M_ex id_ex id_ex 0 (store_at (store_at s_ex 0 packed_ex) 1 image_ex))"]
    in_place_effects [where M = M_ex and mn = id_ex and eu = id_ex and r = 0 and tbl = tbl_ex
      and s = "store_at (store_at s_ex 0 image_ex) 1 packed_ex"
      and res_c = "fst (decode M_ex tbl_ex id_ex id_ex 0
                         (store_at (store_at s_ex 0 image_ex) 1 packed_ex))"
      and s' = "snd (decode M_ex tbl_ex id_ex id_ex 0
                      (store_at (store_at s_ex 0 image_ex) 1 packed_ex))"]
    in_place_effects [where M = M_ex and mn = id_ex and eu = id_ex and tbl = tbl_ex
      and c = c_ex and s = "(store_at s_ex 0 image_ex)\<lparr>lim := 1\<rparr>"
      and res = "fst (encode M_ex tbl_ex id_ex id_ex c_ex
                       ((store_at s_ex 0 image_ex)\<lparr>lim := 1\<rparr>))"
      and s' = "snd (encode M_ex tbl_ex id_ex id_ex c_ex
                      ((store_at s_ex 0 image_ex)\<lparr>lim := 1\<rparr>))"]
  by (simp add: store_at_def)

text \<open>
  C2. On a 113-byte image, with 8-byte identifiers and a cipher that keeps lengths,
  \<open>decode\<close> passes three gates in this order and raises at the first that fails:
  the checksum stored at \<open>0x46\<close> against the still encrypted header (on failure the
  image is untouched: nothing has been decrypted); the checksum stored at \<open>0x60\<close>
  against the still encrypted quantity region (on failure only the header has been
  decrypted); the checksum stored at \<open>0x40\<close> against the decrypted header. A record
  is returned only when all three gates hold.
\<close>

theorem decode_gates_in_order:
  assumes "length (objs s r) = 0x71" and "length mn = 8" and "length eu = 8"
    and "\<forall>k x. length (crypto_decrypt M k x) = length x"
  shows "\<exists>key. build_key (getslice (objs s r) 0x48 0x50) mn eu = Inr key \<and>
     (checksum M (getslice (objs s r) 0x00 0x40) \<noteq> of_le (getslice (objs s r) 0x46 0x48) \<longrightarrow>
        decode M tbl mn eu r s = (Inl (Exception ''invalid crypted content checksum''), s)) \<and>
     (checksum M (getslice (objs s r) 0x00 0x40) = of_le (getslice (objs s r) 0x46 0x48) \<and>
      checksum M (getslice (objs s r) 0x58 0x60) \<noteq> of_le (getslice (objs s r) 0x60 0x62) \<longrightarrow>
        decode M tbl mn eu r s
          = (Inl (Exception ''invalid current material quantity checksum''),
             store_at s r (header_decrypted M key (objs s r)))) \<and>
     (checksum M (getslice (objs s r) 0x00 0x40) = of_le (getslice (objs s r) 0x46 0x48) \<and>
      checksum M (getslice (objs s r) 0x58 0x60) = of_le (getslice (objs s r) 0x60 0x62) \<and>
      checksum M (crypto_decrypt M key (getslice (objs s r) 0x00 0x40))
        \<noteq> of_le (getslice (objs s r) 0x40 0x42) \<longrightarrow>
        decode M tbl mn eu r s
          = (Inl (Exception (''invalid content checksum: should have ''
                @ py_hex (uint (of_le (getslice (objs s r) 0x40 0x42) :: 16 word))
                @ '' but have ''
                @ py_hex (uint (checksum M (crypto_decrypt M key (getslice (objs s r) 0x00 0x40)))))),
             store_at s r (decrypted M key (objs s r)))) \<and>
     (\<forall>c s'. decode M tbl mn eu r s = (Inr c, s') \<longrightarrow>
        checksum M (getslice (objs s r) 0x00 0x40) = of_le (getslice (objs s r) 0x46 0x48) \<and>
        checksum M (getslice (objs s r) 0x58 0x60) = of_le (getslice (objs s r) 0x60 0x62) \<and>
        checksum M (crypto_decrypt M key (getslice (objs s r) 0x00 0x40))
          = of_le (getslice (objs s r) 0x40 0x42))"
proof -
  let ?b = "objs s r"
  obtain key where key: "build_key (getslice ?b 0x48 0x50) mn eu = Inr key"
    using build_key_ok [of "getslice ?b 0x48 0x50" mn eu] assms by auto
  have len: "0x60 \<le> length ?b" "0x48 \<le> length ?b"
    using assms(1) by simp_all
  note ds = decrypted_slices [OF assms(4) len(1), of key]
  have g1: "decode M tbl mn eu r s = (Inl (Exception ''invalid crypted content checksum''), s)"
    if "checksum M (getslice ?b 0x00 0x40) \<noteq> of_le (getslice ?b 0x46 0x48)"
    using that key len by (simp add: decode_eq decrypt_gate1_fail)
  have g2: "decode M tbl mn eu r s
          = (Inl (Exception ''invalid current material quantity checksum''),
             store_at s r (header_decrypted M key ?b))"
    if "checksum M (getslice ?b 0x00 0x40) = of_le (getslice ?b 0x46 0x48)"
      and "checksum M (getslice ?b 0x58 0x60) \<noteq> of_le (getslice ?b 0x60 0x62)"
    using that key len ds assms(1)
    by (simp add: decode_eq decrypt_gate2_fail [where key = key])
  have ok: "decrypt M mn eu r s = (Inr r, store_at s r (decrypted M key ?b))"
    if "checksum M (getslice ?b 0x00 0x40) = of_le (getslice ?b 0x46 0x48)"
      and "checksum M (getslice ?b 0x58 0x60) = of_le (getslice ?b 0x60 0x62)"
    using that key len ds assms(1) by (simp add: decrypt_ok [where key = key])
  have g3: "decode M tbl mn eu r s
          = (Inl (Exception (''invalid content checksum: should have ''
                @ py_hex (uint (of_le (getslice ?b 0x40 0x42) :: 16 word))
                @ '' but have ''
                @ py_hex (uint (checksum M (crypto_decrypt M key (getslice ?b 0x00 0x40)))))),
             store_at s r (decrypted M key ?b))"
    if "checksum M (getslice ?b 0x00 0x40) = of_le (getslice ?b 0x46 0x48)"
      and "checksum M (getslice ?b 0x58 0x60) = of_le (getslice ?b 0x60 0x62)"
      and "checksum M (crypto_decrypt M key (getslice ?b 0x00 0x40))
             \<noteq> of_le (getslice ?b 0x40 0x42)"
    using ok [OF that(1,2)] that(3) ds assms(1)
    by (simp add: decode_eq unpack_gate3_fail)
  have ret: "checksum M (getslice ?b 0x00 0x40) = of_le (getslice ?b 0x46 0x48) \<and>
        checksum M (getslice ?b 0x58 0x60) = of_le (getslice ?b 0x60 0x62) \<and>
        checksum M (crypto_decrypt M key (getslice ?b 0x00 0x40)) = of_le (getslice ?b 0x40 0x42)"
    if "decode M tbl mn eu r s = (Inr c, s')" for c s'
    using that g1 g2 g3 by (metis Inl_Inr_False prod.inject)
  show ?thesis
    using key g1 g2 g3 ret by blast
qed

theorem decode_gates_in_order_witness:
  "length (objs (store_at s_ex 0 image_ex) 0) = 0x71 \<and> length id_ex = 8
   \<and> (\<forall>k x. length (crypto_decrypt M_ex k x) = length x)
   \<and> decode M_ex tbl_ex id_ex id_ex 0 (store_at s_ex 0 image_ex)
       = (Inr c_ex, store_at s_ex 0 plain_ex)
   \<and> checksum M_ex (getslice image_ex 0x00 0x40) = of_le (getslice image_ex 0x46 0x48)
   \<and> checksum M_ex (getslice image_ex 0x58 0x60) = of_le (getslice image_ex 0x60 0x62)
   \<and> checksum M_ex (crypto_decrypt M_ex key_ex (getslice image_ex 0x00 0x40))
       = of_le (getslice image_ex 0x40 0x42)
   \<and> checksum M_ex (getslice (image_ex[0 := 0]) 0x00 0x40)
       \<noteq> of_le (getslice (image_ex[0 := 0]) 0x46 0x48)
   \<and> decode M_ex tbl_ex id_ex id_ex 0 (store_at s_ex 0 (image_ex[0 := 0]))
       = (Inl (Exception ''invalid crypted content checksum''), store_at s_ex 0 (image_ex[0 := 0]))"
proof -
  have len: "\<forall>k x. length (crypto_decrypt M_ex k x) = length x"
    by (simp add: M_ex_def shift_decrypt_def)
  have id: "length id_ex = 8"
    by (simp add: id_ex_def)
  have l1: "length (objs (store_at s_ex 0 image_ex) 0) = 0x71"
    by (simp add: length_image_ex)
  have l2: "length (objs (store_at s_ex 0 (image_ex[0 := 0])) 0) = 0x71"
    by (simp add: length_image_ex)
  have bad: "checksum M_ex (getslice (image_ex[0 := 0]) 0x00 0x40)
       \<noteq> of_le (getslice (image_ex[0 := 0]) 0x46 0x48)"
    by (simp add: M_ex_def sum16_def image_ex_def getslice_def)
  from decode_gates_in_order [OF l1 id id len, of tbl_ex]
  have good: "checksum M_ex (getslice image_ex 0x00 0x40) = of_le (getslice image_ex 0x46 0x48)
   \<and> checksum M_ex (getslice image_ex 0x58 0x60) = of_le (getslice image_ex 0x60 0x62)
   \<and> checksum M_ex (crypto_decrypt M_ex key_ex (getslice image_ex 0x00 0x40))
       = of_le (getslice image_ex 0x40 0x42)"
    by (simp add: build_key_image_ex decode_ex)
  from decode_gates_in_order [OF l2 id id len, of tbl_ex] bad
  have "decode M_ex tbl_ex id_ex id_ex 0 (store_at s_ex 0 (image_ex[0 := 0]))
       = (Inl (Exception ''invalid crypted content checksum''), store_at s_ex 0 (image_ex[0 := 0]))"
    by auto
  with len id l1 good bad show ?thesis
    by (simp add: decode_ex)
qed

text \<open>
  C5. Tamper detection. Take an image that \<open>encode\<close> has produced, flip one bit of a
  byte in \<open>[0x00,0x40)\<close> or in \<open>[0x58,0x60)\<close>, and decode the result with the same
  identifiers. With a checksum that changes whenever a single bit of its input is
  flipped, and a cipher that keeps lengths, \<open>decode\<close> raises the exception of its first
  gate (a flip in the header) or of its second gate (a flip in the quantity region); no
  record is returned.
\<close>

theorem tamper_detection:
  assumes "encode M tbl mn eu c s = (Inr r, s1)"
    and "\<forall>k x. length (crypto_decrypt M k x) = length x"
    and "\<forall>bs i k. i < length bs \<and> k < 8 \<longrightarrow> checksum M (flip_bit_at bs i k) \<noteq> checksum M bs"
    and "i < 0x40 \<or> (0x58 \<le> i \<and> i < 0x60)" and "k < 8"
    and "objs s2 r2 = flip_bit_at (objs s1 r) i k"
  shows "fst (decode M tbl mn eu r2 s2)
           = Inl (Exception (if i < 0x40 then ''invalid crypted content checksum''
                             else ''invalid current material quantity checksum''))"
proof -
  from encode_Inr [OF assms(1)] obtain b key where
    pack: "pack M tbl c = Inr b" and key: "build_key (getslice b 0x48 0x50) mn eu = Inr key"
    and img: "objs s1 r = encrypted M key b"
    by blast
  let ?img = "encrypted M key b"
  let ?t = "flip_bit_at ?img i k"
  have lb: "length b = 0x71" using pack by (rule pack_length)
  have lb62: "0x62 \<le> length b" using lb by simp
  note es = encrypted_slices [OF lb62, of M key]
  have li: "length ?img = 0x71" using es(1) lb by simp
  have lt: "length ?t = 0x71" using li by (simp add: flip_bit_at_def)
  have t: "objs s2 r2 = ?t" using assms(6) img by simp
  have i: "i < 0x60" using assms(4) by auto
  have kf: "getslice ?t 0x48 0x50 = getslice b 0x48 0x50"
    using assms(4) li es(6) by (auto simp: getslice_flip_bit_at)
  have tok1: "getslice ?t 0x46 0x48 = getslice ?img 0x46 0x48"
    using assms(4) li by (auto simp: getslice_flip_bit_at)
  have tok2: "getslice ?t 0x60 0x62 = getslice ?img 0x60 0x62"
    using assms(4) li by (auto simp: getslice_flip_bit_at)
  have key2: "build_key (getslice (objs s2 r2) 0x48 0x50) mn eu = Inr key"
    using key kf t by simp
  show ?thesis
  proof (cases "i < 0x40")
    case True
    have "getslice ?t 0x00 0x40 = flip_bit_at (getslice ?img 0x00 0x40) i k"
      using True li by (auto simp: getslice_flip_bit_at)
    moreover have "i < length (getslice ?img 0x00 0x40)"
      using True li by simp
    ultimately have "checksum M (getslice ?t 0x00 0x40) \<noteq> checksum M (getslice ?img 0x00 0x40)"
      using assms(3,5) by simp
    then have "checksum M (getslice ?t 0x00 0x40) \<noteq> of_le (getslice ?t 0x46 0x48)"
      using tok1 es(4) by simp
    then have "decrypt M mn eu r2 s2 = (Inl (Exception ''invalid crypted content checksum''), s2)"
      using key2 lt t by (intro decrypt_gate1_fail [where key = key]) simp_all
    then show ?thesis using True by (simp add: decode_eq)
  next
    case False
    then have q: "0x58 \<le> i" "i < 0x60" using assms(4) by auto
    have hdr: "getslice ?t 0x00 0x40 = getslice ?img 0x00 0x40"
      using q li by (auto simp: getslice_flip_bit_at)
    have g1: "checksum M (getslice ?t 0x00 0x40) = of_le (getslice ?t 0x46 0x48)"
      using hdr tok1 es(4) by simp
    have lt60: "0x60 \<le> length ?t" using lt by simp
    note ds = decrypted_slices [OF assms(2) lt60, of key]
    have "getslice ?t 0x58 0x60 = flip_bit_at (getslice ?img 0x58 0x60) (i - 0x58) k"
      using q li by (auto simp: getslice_flip_bit_at)
    moreover have "i - 0x58 < length (getslice ?img 0x58 0x60)"
      using q li by simp
    ultimately have "checksum M (getslice ?t 0x58 0x60) \<noteq> checksum M (getslice ?img 0x58 0x60)"
      using assms(3,5) by simp
    then have g2: "checksum M (getslice (header_decrypted M key ?t) 0x58 0x60)
                     \<noteq> of_le (getslice (header_decrypted M key ?t) 0x60 0x62)"
      using tok2 es(5) ds(2,3) by simp
    have "decrypt M mn eu r2 s2
            = (Inl (Exception ''invalid current material quantity checksum''),
               store_at s2 r2 (header_decrypted M key (objs s2 r2)))"
      using key2 lt t g1 g2 ds(1)
      by (intro decrypt_gate2_fail [where key = key]) simp_all
    then show ?thesis using False by (simp add: decode_eq)
  qed
qed

theorem tamper_detection_witness:
  "encode M_ex tbl_ex id_ex id_ex c_ex s_ex = (Inr 0, (store_at s_ex 0 image_ex)\<lparr>lim := 1\<rparr>)
   \<and> (\<forall>k x. length (crypto_decrypt M_ex k x) = length x)
   \<and> fst (decode M_ex tbl_ex id_ex id_ex 0 (store_at s_ex 0 (flip_bit_at image_ex 3 0)))
       = Inl (Exception ''invalid crypted content checksum'')
   \<and> fst (decode M_ex tbl_ex id_ex id_ex 0 (store_at s_ex 0 (flip_bit_at image_ex 0x5a 7)))
       = Inl (Exception ''invalid current material quantity checksum'')"
proof -
  have len: "\<forall>k x. length (crypto_decrypt M_ex k x) = length x"
    by (simp add: M_ex_def shift_decrypt_def)
  have det: "\<forall>bs i k. i < length bs \<and> k < 8 \<longrightarrow>
          checksum M_ex (flip_bit_at bs i k) \<noteq> checksum M_ex bs"
    by (simp add: M_ex_def sum16_detects)
  have img: "objs ((store_at s_ex 0 image_ex)\<lparr>lim := 1\<rparr>) 0 = image_ex"
    by (simp add: store_at_def)
  have "fst (decode M_ex tbl_ex id_ex id_ex 0 (store_at s_ex 0 (flip_bit_at image_ex 3 0)))
       = Inl (Exception ''invalid crypted content checksum'')"
    using tamper_detection [OF encode_ex len det, of 3 0
        "store_at s_ex 0 (flip_bit_at image_ex 3 0)" 0]
    by (simp add: img)
  moreover
  have "fst (decode M_ex tbl_ex id_ex id_ex 0 (store_at s_ex 0 (flip_bit_at image_ex 0x5a 7)))
       = Inl (Exception ''invalid current material quantity checksum'')"
    using tamper_detection [OF encode_ex len det, of "0x5a" 7
        "store_at s_ex 0 (flip_bit_at image_ex 0x5a 7)" 0]
    by (simp add: img)
  ultimately show ?thesis
    using len by (simp add: encode_ex)
qed

text \<open>
  C6, as stated: a manufacturing lot longer than 20 bytes makes \<open>encode\<close> raise and
  produce no image. The code has no such check: \<open>struct.pack_into("<20s", ...)\<close> cuts
  its argument to 20 bytes without complaint. For the example record with a lot of 26
  bytes \<open>encode\<close> returns an image.
\<close>

theorem long_lot_counterexample:
  "20 < length (encode_utf8 (manufacturing_lot c_long))
   \<and> pack M_ex tbl_ex c_long = Inr packed_long
   \<and> fst (encode M_ex tbl_ex id_ex id_ex c_long s_ex) = Inr 0"
proof -
  have "20 < length (encode_utf8 (manufacturing_lot c_long))"
    by (simp add: c_long_def encode_utf8_def)
  moreover have "fst (encode M_ex tbl_ex id_ex id_ex c_long s_ex) = Inr 0"
    using encode_succeeds [OF pack_long, where mn = id_ex and eu = id_ex and s = s_ex]
    by (auto simp: id_ex_def s_ex_def)
  ultimately show ?thesis
    by (simp add: pack_long)
qed

text \<open>
  C6, amended: the length of the manufacturing lot never makes \<open>pack\<close> fail. \<open>pack\<close>
  gives the same result for a record and for the record with its lot cut to the first 20
  bytes, and in the bytes it returns \<open>[0x10,0x24)\<close> holds the first 20 bytes of the
  encoded lot, NUL-padded when the lot is shorter.
\<close>

theorem pack_truncates_lot:
  "pack M tbl (c\<lparr>manufacturing_lot := l\<rparr>) = pack M tbl (c\<lparr>manufacturing_lot := take 20 l\<rparr>)
   \<and> (pack M tbl c = Inr b \<longrightarrow>
        getslice b 0x10 0x24 = fmt_s 20 (encode_utf8 (manufacturing_lot c)))"
proof
  show "pack M tbl (c\<lparr>manufacturing_lot := l\<rparr>) = pack M tbl (c\<lparr>manufacturing_lot := take 20 l\<rparr>)"
    by (simp add: pack_def fmt_s_take)
  show "pack M tbl c = Inr b \<longrightarrow>
        getslice b 0x10 0x24 = fmt_s 20 (encode_utf8 (manufacturing_lot c))"
    using pack_layout [of M tbl c b] by auto
qed

theorem pack_truncates_lot_witness:
  "pack M_ex tbl_ex c_long = Inr packed_long
   \<and> pack M_ex tbl_ex (c_long\<lparr>manufacturing_lot := ''ABCDEFGHIJKLMNOPQRST''\<rparr>) = Inr packed_long
   \<and> getslice packed_long 0x10 0x24 = encode_utf8 ''ABCDEFGHIJKLMNOPQRST''"
proof -
  have "getslice packed_long 0x10 0x24 = fmt_s 20 (encode_utf8 (manufacturing_lot c_long))"
    using pack_truncates_lot [where M = M_ex and tbl = tbl_ex and c = c_long
        and l = "manufacturing_lot c_long" and b = packed_long]
    by (simp add: pack_long)
  moreover have "fmt_s 20 (encode_utf8 (manufacturing_lot c_long))
                   = encode_utf8 ''ABCDEFGHIJKLMNOPQRST''"
    by (simp add: c_long_def fmt_s_def encode_utf8_def)
  moreover
  have "pack M_ex tbl_ex (c_long\<lparr>manufacturing_lot := ''ABCDEFGHIJKLMNOPQRST''\<rparr>) = Inr packed_long"
  proof -
    have e: "c_long\<lparr>manufacturing_lot := manufacturing_lot c_long\<rparr> = c_long"
      by simp
    have t: "take 20 (manufacturing_lot c_long) = ''ABCDEFGHIJKLMNOPQRST''"
      by (simp add: c_long_def)
    show ?thesis
      using pack_truncates_lot [where M = M_ex and tbl = tbl_ex and c = c_long
        and l = "manufacturing_lot c_long" and b = packed_long]
      unfolding e t by (simp add: pack_long)
  qed
  ultimately show ?thesis
    by (simp add: pack_long)
qed

lemma get_id_from_name_unknown:
  "name \<notin> fst ` set tbl \<Longrightarrow> get_id_from_name tbl name = Inl UnknownMaterialError"
proof -
  assume "name \<notin> fst ` set tbl"
  then have "map_of tbl name = None"
    by (simp add: map_of_eq_None_iff)
  then show ?thesis
    by (simp add: get_id_from_name_def)
qed

lemma get_name_from_id_unknown:
  "i \<notin> snd ` set tbl \<Longrightarrow> get_name_from_id tbl i = Inl UnknownMaterialError"
proof -
  assume "i \<notin> snd ` set tbl"
  then have "i \<notin> fst ` set (map (\<lambda>(name, j). (j, name)) tbl)"
    by (auto simp: image_iff)
  then have "map_of (map (\<lambda>(name, j). (j, name)) tbl) i = None"
    by (metis map_of_eq_None_iff)
  then show ?thesis
    by (simp add: get_name_from_id_def)
qed

text \<open>
  C7. A record whose material name is absent from the material table makes \<open>pack\<close>,
  and so \<open>encode\<close>, raise \<open>UnknownMaterialError\<close>: no image is returned and the store is
  as it was. Likewise \<open>unpack\<close> raises \<open>UnknownMaterialError\<close> on a buffer that has
  passed its two checksum gates and whose material field is an integer absent from the
  table.
\<close>

theorem unknown_material:
  "(material_name c \<notin> fst ` set tbl \<longrightarrow>
      pack M tbl c = Inl UnknownMaterialError
      \<and> encode M tbl mn eu c s = (Inl UnknownMaterialError, s))
   \<and> (0x64 \<le> length b
      \<and> checksum M (getslice b 0x00 0x40) = of_le (getslice b 0x40 0x42)
      \<and> checksum M (getslice b 0x58 0x60) = of_le (getslice b 0x62 0x64)
      \<and> int_of_double (of_le (getslice b 0x08 0x10)) = Inr i
      \<and> i \<notin> snd ` set tbl \<longrightarrow>
      unpack M tbl b = Inl UnknownMaterialError)"
proof (intro conjI impI)
  assume a: "material_name c \<notin> fst ` set tbl"
  show p: "pack M tbl c = Inl UnknownMaterialError"
    using get_id_from_name_unknown [OF a]
    by (simp add: pack_def pack_into_def Let_def)
  show "encode M tbl mn eu c s = (Inl UnknownMaterialError, s)"
    using p by (simp add: encode_eq)
next
  assume a: "0x64 \<le> length b
      \<and> checksum M (getslice b 0x00 0x40) = of_le (getslice b 0x40 0x42)
      \<and> checksum M (getslice b 0x58 0x60) = of_le (getslice b 0x62 0x64)
      \<and> int_of_double (of_le (getslice b 0x08 0x10)) = Inr i
      \<and> i \<notin> snd ` set tbl"
  then have len: "0x64 \<le> length b"
    and g3: "checksum M (getslice b 0x00 0x40) = of_le (getslice b 0x40 0x42)"
    and g4: "checksum M (getslice b 0x58 0x60) = of_le (getslice b 0x62 0x64)"
    and mid: "int_of_double (of_le (getslice b 0x08 0x10)) = Inr i"
    and unknown: "get_name_from_id tbl i = Inl UnknownMaterialError"
    by (simp_all add: get_name_from_id_unknown)
  from len have "length (getslice b 0x40 0x42) = 2" "length (getslice b 0x62 0x64) = 2"
    by simp_all
  with len g3 g4 mid unknown show "unpack M tbl b = Inl UnknownMaterialError"
    by (simp add: unpack_def unpack_H_def unpack_from_def Let_def)
qed

theorem unknown_material_witness:
  "pack M_ex tbl_ex (c_ex\<lparr>material_name := ''XYZ''\<rparr>) = Inl UnknownMaterialError
   \<and> encode M_ex tbl_ex id_ex id_ex (c_ex\<lparr>material_name := ''XYZ''\<rparr>) s_ex
       = (Inl UnknownMaterialError, s_ex)
   \<and> int_of_double (of_le (getslice plain_ex 0x08 0x10)) = Inr 19
   \<and> unpack M_ex [(''ABS'', 0)] plain_ex = Inl UnknownMaterialError"
proof -
  have name: "material_name (c_ex\<lparr>material_name := ''XYZ''\<rparr>) \<notin> fst ` set tbl_ex"
    by (simp add: tbl_ex_def)
  have len: "0x64 \<le> length plain_ex"
    by (simp add: plain_ex_def)
  have g3: "checksum M_ex (getslice plain_ex 0x00 0x40) = of_le (getslice plain_ex 0x40 0x42)"
    by (simp add: M_ex_def sum16_def plain_ex_def getslice_def)
  have g4: "checksum M_ex (getslice plain_ex 0x58 0x60) = of_le (getslice plain_ex 0x62 0x64)"
    by (simp add: M_ex_def sum16_def plain_ex_def getslice_def)
  have "(of_le (getslice plain_ex 0x08 0x10) :: 64 word) = 0x4033000000000000"
    by (simp add: plain_ex_def getslice_def)
  then have mid: "int_of_double (of_le (getslice plain_ex 0x08 0x10)) = Inr 19"
    by (simp add: int_of_double_19)
  have absent: "(19 :: int) \<notin> snd ` set [(''ABS'', 0)]"
    by simp
  show ?thesis
    using unknown_material [where M = M_ex and tbl = tbl_ex
        and c = "c_ex\<lparr>material_name := ''XYZ''\<rparr>" and mn = id_ex and eu = id_ex and s = s_ex]
      unknown_material [where M = M_ex and tbl = "[(''ABS'', 0)]" and b = plain_ex and i = 19]
      name len g3 g4 mid absent
    by blast
qed

section \<open>The round trip\<close>

text \<open>
  C1. Decoding the image of a record returns the record field for field. The code breaks
  this on a record whose signature is shorter than its nine-byte slot: the example record
  with the signature \<open>STRATA\<close> is encoded without error, and decoding the image returns
  a record whose signature is nine characters long, the six of \<open>STRATA\<close> and three
  NULs. \<open>pack\<close> NUL-pads the lot and the signature alike; \<open>unpack\<close> cuts the lot at
  the first NUL but returns the signature slot as it is.
\<close>

theorem round_trip_counterexample:
  "signature c_short = ''STRATA''
   \<and> fst (encode M_ex tbl_ex id_ex id_ex c_short s_ex) = Inr 0
   \<and> fst (decode M_ex tbl_ex id_ex id_ex 0 (snd (encode M_ex tbl_ex id_ex id_ex c_short s_ex)))
       = Inr (c_short\<lparr>signature := ''STRATA'' @ [CHR 0x00, CHR 0x00, CHR 0x00]\<rparr>)
   \<and> c_short\<lparr>signature := ''STRATA'' @ [CHR 0x00, CHR 0x00, CHR 0x00]\<rparr> \<noteq> c_short"
proof -
  have sg: "signature c_short = ''STRATA''"
    by (simp add: c_short_def)
  have name: "get_id_from_name tbl_ex (material_name c_short) = Inr 19"
    by (simp add: c_short_def c_ex_def get_id_from_name_PC)
  have inv_name: "get_name_from_id tbl_ex 19 = Inr (material_name c_short)"
    by (simp add: c_short_def c_ex_def get_name_from_id_19)
  have v: "0 \<le> version c_short" "version c_short \<le> 0xFFFF"
    by (simp_all add: c_short_def c_ex_def)
  have d: "valid_datetime (manufacturing_date c_short)" "valid_datetime (last_use_date c_short)"
    by (simp_all add: c_short_def c_ex_def valid_datetime_dt_ex)
  have k: "fromhex (key_fragment c_short) = Inr [65, 65, 65, 65, 65, 65, 65, 65]"
    by (simp add: c_short_def c_ex_def fromhex_ex del: fromhex.simps)
  from pack_succeeds [OF name double_of_int_19 v d k, of M_ex]
  obtain b where b: "pack M_ex tbl_ex c_short = Inr b" ..
  have ids: "8 \<le> length id_ex" "7 \<le> length id_ex"
    by (simp_all add: id_ex_def)
  note rt = decode_encode [OF cipher_contract_ex b ids, of s_ex]
  have "\<bar>19 :: int\<bar> < 2 ^ 53" by simp
  note u = unpack_pack [OF b name this inv_name d k]
  have lot: "decode_utf8 (takeWhile (\<lambda>x. x \<noteq> 0) (fmt_s 20 (encode_utf8 (manufacturing_lot c_short))))
               = manufacturing_lot c_short"
    by (simp add: takeWhile_fmt_s encode_utf8_no_nul c_short_def c_ex_def)
  have key: "bytes_hex (fmt_s 8 [65, 65, 65, 65, 65, 65, 65, 65]) = key_fragment c_short"
    by (simp add: fmt_s_exact bytes_hex_ex c_short_def c_ex_def)
  have pad: "decode_utf8 (fmt_s 9 (encode_utf8 (signature c_short)))
               = ''STRATA'' @ [CHR 0x00, CHR 0x00, CHR 0x00]"
    by (simp add: sg fmt_s_def encode_utf8_def decode_utf8_def char_of_def replicate_numeral
        bit_Suc_0_iff)
  have dates: "truncate_seconds (manufacturing_date c_short) = manufacturing_date c_short"
    "truncate_seconds (last_use_date c_short) = last_use_date c_short"
    by (simp_all add: truncate_seconds_def c_short_def c_ex_def dt_ex_def)
  have "unpack M_ex tbl_ex b
          = Inr (c_short\<lparr>signature := ''STRATA'' @ [CHR 0x00, CHR 0x00, CHR 0x00]\<rparr>)"
    unfolding u lot key pad dates by simp
  moreover have "c_short\<lparr>signature := ''STRATA'' @ [CHR 0x00, CHR 0x00, CHR 0x00]\<rparr> \<noteq> c_short"
  proof
    assume "c_short\<lparr>signature := ''STRATA'' @ [CHR 0x00, CHR 0x00, CHR 0x00]\<rparr> = c_short"
    then have "signature (c_short\<lparr>signature := ''STRATA'' @ [CHR 0x00, CHR 0x00, CHR 0x00]\<rparr>)
                 = signature c_short"
      by (rule arg_cong)
    then show False by (simp add: sg)
  qed
  moreover have "lim s_ex = 0" by (simp add: s_ex_def)
  ultimately show ?thesis
    using rt sg by simp
qed

text \<open>
  What the round trip returns on every valid record. Let the cipher keep lengths and let
  its \<open>decrypt\<close> invert its \<open>encrypt\<close>. For every valid record and every pair of
  8-byte identifiers, \<open>encode\<close> returns an image in a new object, and \<open>decode\<close> of
  that image with the same identifiers returns the record with the two dates cut to the
  second and the signature NUL-padded to nine characters; every other field is returned
  as it was.
\<close>

lemma decode_encode_valid:
  assumes "cipher_contract M" and "valid_record tbl c"
    and "length machine_number = 8" and "length eeprom_uid = 8"
  shows "fst (encode M tbl machine_number eeprom_uid c s) = Inr (lim s)
       \<and> fst (decode M tbl machine_number eeprom_uid (lim s)
                (snd (encode M tbl machine_number eeprom_uid c s)))
           = Inr (c\<lparr>manufacturing_date := truncate_seconds (manufacturing_date c),
                     last_use_date := truncate_seconds (last_use_date c),
                     signature := signature c @ replicate (9 - length (signature c)) (CHR 0x00)\<rparr>)"
proof -
  from assms(2) obtain i k where
      name: "get_id_from_name tbl (material_name c) = Inr i" and small: "\<bar>i\<bar> < 2 ^ 53"
      and inv_name: "get_name_from_id tbl i = Inr (material_name c)"
      and lot: "length (manufacturing_lot c) \<le> 20" "CHR 0x00 \<notin> set (manufacturing_lot c)"
      and v: "0 \<le> version c" "version c \<le> 0xFFFF"
      and d: "valid_datetime (manufacturing_date c)" "valid_datetime (last_use_date c)"
      and k: "fromhex (key_fragment c) = Inr k" "length k = 8" "bytes_hex k = key_fragment c"
      and sg: "length (signature c) \<le> 9"
    by (auto simp: valid_record_def split: sum.splits)
  from double_of_int_exact [OF small] obtain x where x: "double_of_int i = Inr x"
    by blast
  from pack_succeeds [OF name x v d k(1), of M]
  obtain b where b: "pack M tbl c = Inr b" ..
  have ids: "8 \<le> length machine_number" "7 \<le> length eeprom_uid"
    using assms(3,4) by simp_all
  note rt = decode_encode [OF assms(1) b ids, of s]
  note u = unpack_pack [OF b name small inv_name d k(1)]
  have l: "decode_utf8 (takeWhile (\<lambda>x. x \<noteq> 0) (fmt_s 20 (encode_utf8 (manufacturing_lot c))))
             = manufacturing_lot c"
    using lot by (simp add: takeWhile_fmt_s encode_utf8_no_nul)
  have key: "bytes_hex (fmt_s 8 k) = key_fragment c"
    using k(2,3) by (simp add: fmt_s_exact)
  have s9: "decode_utf8 (fmt_s 9 (encode_utf8 (signature c)))
              = signature c @ replicate (9 - length (signature c)) (CHR 0x00)"
    using sg by (simp add: decode_utf8_fmt_s)
  have "unpack M tbl b
          = Inr (c\<lparr>manufacturing_date := truncate_seconds (manufacturing_date c),
                    last_use_date := truncate_seconds (last_use_date c),
                    signature := signature c @ replicate (9 - length (signature c)) (CHR 0x00)\<rparr>)"
    unfolding u l key s9 by (cases c) simp
  with rt show ?thesis by simp
qed

text \<open>The example record, whose signature fills its slot, is returned as it was.\<close>

lemma decode_encode_ex:
  "cipher_contract M_ex \<and> valid_record tbl_ex c_ex \<and> length id_ex = 8
   \<and> fst (encode M_ex tbl_ex id_ex id_ex c_ex s_ex) = Inr 0
   \<and> fst (decode M_ex tbl_ex id_ex id_ex 0 (snd (encode M_ex tbl_ex id_ex id_ex c_ex s_ex)))
       = Inr c_ex"
proof -
  have k: "fromhex (key_fragment c_ex) = Inr [65, 65, 65, 65, 65, 65, 65, 65]"
    by (simp add: c_ex_def fromhex_ex del: fromhex.simps)
  have v: "valid_record tbl_ex c_ex"
    unfolding valid_record_def k
    by (simp add: c_ex_def get_id_from_name_PC get_name_from_id_19 valid_datetime_dt_ex
        bytes_hex_ex)
  have l: "length id_ex = 8"
    by (simp add: id_ex_def)
  have t: "c_ex\<lparr>manufacturing_date := truncate_seconds (manufacturing_date c_ex),
                last_use_date := truncate_seconds (last_use_date c_ex),
                signature := signature c_ex @ replicate (9 - length (signature c_ex)) (CHR 0x00)\<rparr>
             = c_ex"
    by (simp add: c_ex_def dt_ex_def truncate_seconds_def)
  show ?thesis
    using decode_encode_valid [OF cipher_contract_ex v l l, of s_ex] cipher_contract_ex v l
    by (simp add: t s_ex_def)
qed

end
